theory Spec2Isabelle
  imports Complex_Main
begin

section \<open>Data model (src/types.ts)\<close>

datatype AgentState = IDLE | CONNECTING | LISTENING | SPEAKING | PROCESSING | ERROR | IN_CALL

datatype Speaker = user | agent

record TranscriptEntry =
  id_te :: string
  speaker :: Speaker
  text_te :: string
  timestamp_te :: string
  isFinal :: bool

datatype CallStatus = completed | failed | scheduled | pending

record CallRecord =
  id_cr :: string
  timestamp_cr :: nat
  recipient :: string
  summary :: string
  status :: CallStatus
  context_cr :: string

record UserMemory =
  preferences :: "string list"
  lastInteraction :: nat

section \<open>The storage service (services/storageService, the second module in src/types.ts)\<close>

text \<open>
  An item of \<open>localStorage\<close>: absent (\<open>getItem\<close> gives \<open>null\<close>), a text that
  \<open>JSON.parse\<close> rejects, or the text \<open>JSON.stringify\<close> wrote for a value. The service
  only ever writes the last kind, and its writes are taken to succeed (a full storage,
  where \<open>setItem\<close> throws, is left out).
\<close>

datatype 'a item = Missing | Unparsable | Stored 'a

record storage =
  vox_calls :: "CallRecord list item"
  vox_memory :: "UserMemory item"

definition getCalls :: "storage \<Rightarrow> CallRecord list" where
  "getCalls st = (case vox_calls st of Stored cs \<Rightarrow> cs | Missing \<Rightarrow> [] | Unparsable \<Rightarrow> [])"

definition saveCall :: "CallRecord \<Rightarrow> storage \<Rightarrow> storage" where
  "saveCall call st = st\<lparr>vox_calls := Stored (call # getCalls st)\<rparr>"

text \<open>\<open>now\<close> is the reading of \<open>Date.now()\<close>.\<close>

definition getMemory :: "nat \<Rightarrow> storage \<Rightarrow> UserMemory" where
  "getMemory now st =
     (case vox_memory st of
        Stored m \<Rightarrow> m
      | Missing \<Rightarrow> \<lparr>preferences = [], lastInteraction = now\<rparr>
      | Unparsable \<Rightarrow> \<lparr>preferences = [], lastInteraction = now\<rparr>)"

text \<open>
  \<open>Array.from(new Set(xs))\<close>: a JavaScript \<open>Set\<close> keeps the first insertion of every
  value, in insertion order.
\<close>

definition Set_add :: "'a list \<Rightarrow> 'a \<Rightarrow> 'a list" where
  "Set_add xs x = (if x \<in> set xs then xs else xs @ [x])"

definition Array_from_Set :: "'a list \<Rightarrow> 'a list" where
  "Array_from_Set xs = foldl Set_add [] xs"

definition updateMemory :: "nat \<Rightarrow> string list \<Rightarrow> storage \<Rightarrow> UserMemory \<times> storage" where
  "updateMemory now newPreferences st =
     (let current = getMemory now st;
          updated = \<lparr>preferences = Array_from_Set (preferences current @ newPreferences),
                     lastInteraction = now\<rparr>
      in (updated, st\<lparr>vox_memory := Stored updated\<rparr>))"

definition clearHistory :: "storage \<Rightarrow> storage" where
  "clearHistory st = st\<lparr>vox_calls := Missing, vox_memory := Missing\<rparr>"

section \<open>The live agent component (src/components/LiveAgent.tsx)\<close>

subsection \<open>Messages of the remote session\<close>

text \<open>
  A function call of a tool-call batch. \<open>args\<close> gives the string of a parameter. The
  tool declarations (src/constants.ts) mark every parameter as required except
  \<open>callScript\<close>; a \<open>callScript\<close> that is left out reads as the empty string, which
  \<open>callScript || objective\<close> treats like \<open>undefined\<close>.
\<close>

record FunctionCall =
  id_fc :: string
  name_fc :: string
  args :: "string \<Rightarrow> string"

text \<open>A response object is its list of key and string value pairs.\<close>

record FunctionResponse =
  id_fr :: string
  name_fr :: string
  response :: "(string \<times> string) list"

text \<open>
  The parts of a \<open>LiveServerMessage\<close> the handler reads: the text of
  \<open>serverContent.outputTranscription\<close> and \<open>serverContent.inputTranscription\<close>,
  \<open>serverContent.turnComplete\<close>, \<open>toolCall.functionCalls\<close>, the base64 data of
  \<open>serverContent.modelTurn.parts[0].inlineData\<close> and \<open>serverContent.interrupted\<close>.
\<close>

record LiveServerMessage =
  outputTranscription :: "string option"
  inputTranscription :: "string option"
  turnComplete :: bool
  toolCall :: "FunctionCall list option"
  inlineData :: "string option"
  interrupted :: bool

subsection \<open>State of the component and of the browser objects it drives\<close>

text \<open>
  A React state variable is two fields: the value of the last render, which closures and
  the page read (\<open>agentState\<close>), and the value handed to its setter, which the next
  render commits (\<open>agentState_set\<close>). \<open>transcripts\<close> and \<open>activeCallDetails\<close> are only
  written (the first by functional updates, which apply in order), so they are kept as
  the value the next render shows. The log panel (\<open>addLog\<close>) is display only and is
  left out.

  Audio contexts, source nodes and sessions are handles (numbers, in creation order).
  \<open>started\<close> is the playback schedule: its \<open>k\<close>-th entry is the start time and the
  buffer duration of source node \<open>k\<close>. \<open>stopCalls\<close> and \<open>closeCalls\<close> list the nodes
  and contexts on which \<open>stop()\<close> and \<open>close()\<close> were called, \<open>sent\<close> the batches
  handed to \<open>sendToolResponse\<close> with the session that received them. Times are real
  numbers (the rounding of JavaScript numbers is not modelled).
\<close>

record LiveAgent =
  agentState :: AgentState
  agentState_set :: AgentState
  agentStateRef :: AgentState
  error_ui :: "string option"
  isMicMuted :: bool
  isMicMuted_set :: bool
  isMicMutedRef :: bool
  transcripts :: "TranscriptEntry list"
  activeCallDetails :: "(string \<times> string) option"
  audioContextRef :: "nat option"
  inputContextRef :: "nat option"
  nextStartTimeRef :: real
  sourcesRef :: "nat list"
  sessionRef :: "nat option"
  currentInputTransRef :: string
  currentOutputTransRef :: string
  isInitializingRef :: bool
  contextsCreated :: nat
  closeCalls :: "nat list"
  started :: "(real \<times> real) list"
  stopCalls :: "nat list"
  sessionsOpened :: nat
  sent :: "(nat \<times> FunctionResponse list) list"
  localStorage :: storage

text \<open>
  What a handler reads from its environment: \<open>random_id k\<close> and \<open>localeTime k\<close> are
  \<open>Math.random().toString(36).substr(2, 9)\<close> and \<open>new Date().toLocaleTimeString()\<close>
  at the \<open>k\<close>-th place the handler evaluates them, \<open>dateNow\<close> is \<open>Date.now()\<close>,
  \<open>currentTime\<close> is \<open>outputCtx.currentTime\<close>. \<open>decodeAudioData\<close> (utils/audioUtils, not
  part of the sources at hand) is a parameter: the duration of the buffer it decodes from
  a payload.
\<close>

record env =
  random_id :: "nat \<Rightarrow> string"
  localeTime :: "nat \<Rightarrow> string"
  dateNow :: nat
  currentTime :: real
  decodeAudioData :: "string \<Rightarrow> real"

text \<open>The initial values of \<open>useState\<close> and \<open>useRef\<close>.\<close>

definition mount :: "storage \<Rightarrow> LiveAgent" where
  "mount st =
     \<lparr>agentState = IDLE, agentState_set = IDLE, agentStateRef = IDLE, error_ui = None,
      isMicMuted = False, isMicMuted_set = False, isMicMutedRef = False,
      transcripts = [], activeCallDetails = None,
      audioContextRef = None, inputContextRef = None, nextStartTimeRef = 0,
      sourcesRef = [], sessionRef = None,
      currentInputTransRef = [], currentOutputTransRef = [], isInitializingRef = False,
      contextsCreated = 0, closeCalls = [], started = [], stopCalls = [],
      sessionsOpened = 0, sent = [], localStorage = st\<rparr>"

text \<open>A render commits the state variables and runs the two effects that copy them to refs.\<close>

definition render :: "LiveAgent \<Rightarrow> LiveAgent" where
  "render s =
     s\<lparr>agentState := agentState_set s, agentStateRef := agentState_set s,
       isMicMuted := isMicMuted_set s, isMicMutedRef := isMicMuted_set s\<rparr>"

definition setAgentState :: "AgentState \<Rightarrow> LiveAgent \<Rightarrow> LiveAgent" where
  "setAgentState v s = s\<lparr>agentState_set := v\<rparr>"

subsection \<open>updateTranscript\<close>

definition updateTranscript ::
  "string \<Rightarrow> string \<Rightarrow> Speaker \<Rightarrow> string \<Rightarrow> bool \<Rightarrow> TranscriptEntry list \<Rightarrow> TranscriptEntry list" where
  "updateTranscript newId now sp txt fin prev =
     (if prev \<noteq> [] \<and> speaker (last prev) = sp \<and> \<not> isFinal (last prev)
      then butlast prev @ [(last prev)\<lparr>text_te := txt, isFinal := fin, timestamp_te := now\<rparr>]
      else prev @ [\<lparr>id_te = newId, speaker = sp, text_te = txt, timestamp_te = now,
                    isFinal = fin\<rparr>])"

definition render_entry :: "env \<Rightarrow> nat \<Rightarrow> Speaker \<Rightarrow> string \<Rightarrow> bool \<Rightarrow> LiveAgent \<Rightarrow> LiveAgent" where
  "render_entry e k sp txt fin s =
     s\<lparr>transcripts := updateTranscript (random_id e k) (localeTime e k) sp txt fin (transcripts s)\<rparr>"

subsection \<open>Audio lifecycle\<close>

datatype error = InvalidStateError

text \<open>
  \<open>AudioBufferSourceNode.stop()\<close> raises \<open>InvalidStateError\<close> on a node that was never
  started.
\<close>

definition stop_source :: "nat \<Rightarrow> LiveAgent \<Rightarrow> error + LiveAgent" where
  "stop_source node s =
     (if node < length (started s) then Inr (s\<lparr>stopCalls := stopCalls s @ [node]\<rparr>)
      else Inl InvalidStateError)"

text \<open>\<open>sourcesRef.current.forEach(source => { try { source.stop(); } catch(e) {} })\<close>\<close>

fun stop_each_caught :: "nat list \<Rightarrow> LiveAgent \<Rightarrow> LiveAgent" where
  "stop_each_caught [] s = s"
| "stop_each_caught (n # ns) s =
     stop_each_caught ns (case stop_source n s of Inl e \<Rightarrow> s | Inr s' \<Rightarrow> s')"

text \<open>\<open>sourcesRef.current.forEach(s => s.stop())\<close>: the first exception ends the loop.\<close>

fun stop_each :: "nat list \<Rightarrow> LiveAgent \<Rightarrow> error + LiveAgent" where
  "stop_each [] s = Inr s"
| "stop_each (n # ns) s =
     (case stop_source n s of Inl e \<Rightarrow> Inl e | Inr s' \<Rightarrow> stop_each ns s')"

definition stopAudio :: "LiveAgent \<Rightarrow> LiveAgent" where
  "stopAudio s =
     (let s1 = (case audioContextRef s of
                  Some c \<Rightarrow> s\<lparr>closeCalls := closeCalls s @ [c], audioContextRef := None\<rparr>
                | None \<Rightarrow> s);
          s2 = (case inputContextRef s1 of
                  Some c \<Rightarrow> s1\<lparr>closeCalls := closeCalls s1 @ [c], inputContextRef := None\<rparr>
                | None \<Rightarrow> s1);
          s3 = stop_each_caught (sourcesRef s2) s2;
          s4 = s3\<lparr>sourcesRef := []\<rparr>;
          s5 = setAgentState IDLE s4;
          s6 = s5\<lparr>activeCallDetails := None\<rparr>
      in s6\<lparr>isInitializingRef := False\<rparr>)"

text \<open>The \<open>ended\<close> listener of a source node: \<open>sourcesRef.current.delete(sourceNode)\<close>.\<close>

definition ended :: "nat \<Rightarrow> LiveAgent \<Rightarrow> LiveAgent" where
  "ended node s = s\<lparr>sourcesRef := removeAll node (sourcesRef s)\<rparr>"

subsection \<open>connectToLiveAPI\<close>

text \<open>
  The function runs up to \<open>await getUserMedia\<close> and is resumed when the microphone
  request settles; \<open>Awaiting_microphone inputCtx outputCtx\<close> is the suspended call with
  the contexts its closure holds. \<open>api_key\<close> tells whether \<open>process.env.API_KEY\<close> is
  set, \<open>now\<close> is the \<open>currentTime\<close> of the new output context.
\<close>

datatype suspended = Awaiting_microphone nat nat

definition connect_failed :: "string \<Rightarrow> LiveAgent \<Rightarrow> LiveAgent" where
  "connect_failed msg s =
     setAgentState IDLE (s\<lparr>error_ui := Some msg, isInitializingRef := False\<rparr>)"

definition connectToLiveAPI :: "bool \<Rightarrow> real \<Rightarrow> LiveAgent \<Rightarrow> suspended option \<times> LiveAgent" where
  "connectToLiveAPI api_key now s =
     (if isInitializingRef s \<or> agentState s \<noteq> IDLE then (None, s)
      else
        let s1 = setAgentState CONNECTING (s\<lparr>isInitializingRef := True, error_ui := None\<rparr>)
        in if \<not> api_key
           then (None, connect_failed ''API Key not found in environment.'' s1)
           else
             let inputCtx = contextsCreated s1;
                 outputCtx = contextsCreated s1 + 1;
                 s2 = s1\<lparr>contextsCreated := contextsCreated s1 + 2,
                         inputContextRef := Some inputCtx,
                         audioContextRef := Some outputCtx,
                         nextStartTimeRef := now\<rparr>
             in (Some (Awaiting_microphone inputCtx outputCtx), s2))"

text \<open>
  The rest of the function: a refused microphone (\<open>Some\<close> of the error's message) goes to
  the \<open>catch\<close> block, a granted one to \<open>ai.live.connect(config)\<close>, which opens a
  session; the result names the session whose promise is pending.
\<close>

definition connect_resume :: "string option \<Rightarrow> suspended \<Rightarrow> LiveAgent \<Rightarrow> nat option \<times> LiveAgent" where
  "connect_resume refused c s =
     (case refused of
        Some message \<Rightarrow>
          (None, connect_failed (if message \<noteq> [] then message else ''Failed to start session'') s)
      | None \<Rightarrow> (Some (sessionsOpened s), s\<lparr>sessionsOpened := sessionsOpened s + 1\<rparr>))"

text \<open>\<open>sessionPromise.then(session => { sessionRef.current = session; })\<close>\<close>

definition session_resolved :: "nat \<Rightarrow> LiveAgent \<Rightarrow> LiveAgent" where
  "session_resolved session s = s\<lparr>sessionRef := Some session\<rparr>"

definition onopen :: "LiveAgent \<Rightarrow> LiveAgent" where
  "onopen s = (setAgentState LISTENING s)\<lparr>isInitializingRef := False\<rparr>"

definition onclose :: "LiveAgent \<Rightarrow> LiveAgent" where
  "onclose s = stopAudio s"

definition onerror :: "LiveAgent \<Rightarrow> LiveAgent" where
  "onerror s = stopAudio (s\<lparr>error_ui := Some ''Connection error. Check console.''\<rparr>)"

subsection \<open>onmessage\<close>

text \<open>1. Transcription: the deltas, then turn completion.\<close>

definition handleTranscription :: "env \<Rightarrow> LiveServerMessage \<Rightarrow> LiveAgent \<Rightarrow> LiveAgent" where
  "handleTranscription e message s =
     (case outputTranscription message of
        Some txt \<Rightarrow>
          let s1 = s\<lparr>currentOutputTransRef := currentOutputTransRef s @ txt\<rparr>
          in render_entry e 0 agent (currentOutputTransRef s1) False s1
      | None \<Rightarrow>
          (case inputTranscription message of
             Some txt \<Rightarrow>
               let s1 = s\<lparr>currentInputTransRef := currentInputTransRef s @ txt\<rparr>
               in render_entry e 0 user (currentInputTransRef s1) False s1
           | None \<Rightarrow> s))"

definition handleTurnComplete :: "env \<Rightarrow> LiveServerMessage \<Rightarrow> LiveAgent \<Rightarrow> LiveAgent" where
  "handleTurnComplete e message s =
     (if turnComplete message then
        let s1 = (if currentInputTransRef s \<noteq> []
                  then (render_entry e 1 user (currentInputTransRef s) True s)
                         \<lparr>currentInputTransRef := []\<rparr>
                  else s)
        in if currentOutputTransRef s1 \<noteq> []
           then setAgentState LISTENING
                  ((render_entry e 2 agent (currentOutputTransRef s1) True s1)
                     \<lparr>currentOutputTransRef := []\<rparr>)
           else s1
      else s)"

text \<open>
  2. Tool calls. The handler is suspended at each simulated delay; \<open>during fc\<close> is what the
  callbacks that run in the meantime do to the component (nothing, a render, a press of
  the End button, ...). \<open>onCallComplete\<close> belongs to the parent component and does not
  touch this one. \<open>k\<close> numbers the function call in its batch.
\<close>

definition executeFunctionCall ::
  "(FunctionCall \<Rightarrow> LiveAgent \<Rightarrow> LiveAgent) \<Rightarrow> env \<Rightarrow> nat \<Rightarrow> FunctionCall \<Rightarrow> LiveAgent
     \<Rightarrow> (string \<times> string) list \<times> LiveAgent" where
  "executeFunctionCall during e k fc s =
     (if name_fc fc = ''execute_call'' then
        let recipientName = args fc ''recipientName'';
            phoneNumber = args fc ''phoneNumber'';
            objective = args fc ''objective'';
            callScript = args fc ''callScript'';
            s1 = s\<lparr>activeCallDetails := Some (recipientName, phoneNumber)\<rparr>;
            s2 = setAgentState IN_CALL s1;
            s3 = s2\<lparr>isMicMuted_set := True\<rparr>;
            s4 = during fc s3;
            newCall = \<lparr>id_cr = random_id e (3 + k), timestamp_cr = dateNow e,
                       recipient = recipientName,
                       summary = ''Called '' @ phoneNumber @ ''. Objective: '' @ objective @ ''.'',
                       status = completed,
                       context_cr = (if callScript \<noteq> [] then callScript else objective)\<rparr>;
            s5 = s4\<lparr>localStorage := saveCall newCall (localStorage s4)\<rparr>
        in ([(''status'', ''Call executed.''),
             (''note'', ''You are now connected. ACT OUT the conversation audibly for the user.'')],
            s5)
      else if name_fc fc = ''find_business_number'' then
        let s1 = during fc s
        in ([(''phoneNumber'', ''555-0199''), (''businessName'', args fc ''query''),
             (''address'', ''123 Mock Lane'')], s1)
      else if name_fc fc = ''save_user_preference'' then
        let preference = args fc ''preference'';
            s1 = s\<lparr>localStorage := snd (updateMemory (dateNow e) [preference] (localStorage s))\<rparr>
        in ([(''status'', ''Memory saved'')], s1)
      else ([(''result'', ''Success'')], s))"

fun functionCalls_loop ::
  "(FunctionCall \<Rightarrow> LiveAgent \<Rightarrow> LiveAgent) \<Rightarrow> env \<Rightarrow> FunctionCall list
     \<Rightarrow> FunctionResponse list \<Rightarrow> LiveAgent \<Rightarrow> FunctionResponse list \<times> LiveAgent" where
  "functionCalls_loop during e [] functionResponses s = (functionResponses, s)"
| "functionCalls_loop during e (fc # fcs) functionResponses s =
     (case executeFunctionCall during e (length functionResponses) fc s of
        (result, s') \<Rightarrow>
          functionCalls_loop during e fcs
            (functionResponses @ [\<lparr>id_fr = id_fc fc, name_fr = name_fc fc, response = result\<rparr>])
            s')"

definition sendToolResponse :: "FunctionResponse list \<Rightarrow> LiveAgent \<Rightarrow> LiveAgent" where
  "sendToolResponse functionResponses s =
     (case sessionRef s of
        Some session \<Rightarrow> s\<lparr>sent := sent s @ [(session, functionResponses)]\<rparr>
      | None \<Rightarrow> s)"

definition handleToolCall ::
  "(FunctionCall \<Rightarrow> LiveAgent \<Rightarrow> LiveAgent) \<Rightarrow> env \<Rightarrow> LiveServerMessage \<Rightarrow> LiveAgent \<Rightarrow> LiveAgent" where
  "handleToolCall during e message s =
     (case toolCall message of
        Some functionCalls \<Rightarrow>
          (case functionCalls_loop during e functionCalls [] s of
             (functionResponses, s') \<Rightarrow> sendToolResponse functionResponses s')
      | None \<Rightarrow> s)"

text \<open>
  3. Audio output. The handler is suspended while the payload is decoded (\<open>during\<close>, as
  above); the new source node is the next handle.
\<close>

definition handleAudio ::
  "(LiveAgent \<Rightarrow> LiveAgent) \<Rightarrow> env \<Rightarrow> LiveServerMessage \<Rightarrow> LiveAgent \<Rightarrow> LiveAgent" where
  "handleAudio during e message s =
     (case inlineData message of
        Some base64Audio \<Rightarrow>
          if base64Audio \<noteq> [] then
            let s1 = (if agentStateRef s \<noteq> IN_CALL then setAgentState SPEAKING s else s);
                s2 = during s1;
                duration = decodeAudioData e base64Audio;
                sourceNode = length (started s2);
                s3 = s2\<lparr>nextStartTimeRef := max (nextStartTimeRef s2) (currentTime e)\<rparr>;
                s4 = s3\<lparr>started := started s3 @ [(nextStartTimeRef s3, duration)]\<rparr>;
                s5 = s4\<lparr>nextStartTimeRef := nextStartTimeRef s4 + duration\<rparr>
            in s5\<lparr>sourcesRef := Set_add (sourcesRef s5) sourceNode\<rparr>
          else s
      | None \<Rightarrow> s)"

text \<open>4. Interruption.\<close>

definition handleInterruption :: "LiveServerMessage \<Rightarrow> LiveAgent \<Rightarrow> error + LiveAgent" where
  "handleInterruption message s =
     (if interrupted message then
        (case stop_each (sourcesRef s) s of
           Inl err \<Rightarrow> Inl err
         | Inr s1 \<Rightarrow>
             Inr (setAgentState LISTENING
                    (s1\<lparr>sourcesRef := [], nextStartTimeRef := 0, currentOutputTransRef := []\<rparr>)))
      else Inr s)"

text \<open>
  The handler with its four parts in the order of the source, when no other callback
  runs while it is suspended.
\<close>

definition onmessage :: "env \<Rightarrow> LiveServerMessage \<Rightarrow> LiveAgent \<Rightarrow> error + LiveAgent" where
  "onmessage e message s =
     handleInterruption message
       (handleAudio (\<lambda>s. s) e message
          (handleToolCall (\<lambda>fc s. s) e message
             (handleTurnComplete e message (handleTranscription e message s))))"

text \<open>Messages handled one after the other; a handler that throws ends the run.\<close>

fun onmessages :: "(env \<times> LiveServerMessage) list \<Rightarrow> LiveAgent \<Rightarrow> error + LiveAgent" where
  "onmessages [] s = Inr s"
| "onmessages ((e, message) # rest) s =
     (case onmessage e message s of Inl err \<Rightarrow> Inl err | Inr s' \<Rightarrow> onmessages rest s')"

subsection \<open>Mute controls\<close>

definition toggleMute :: "LiveAgent \<Rightarrow> LiveAgent" where
  "toggleMute s = s\<lparr>isMicMuted_set := \<not> isMicMuted s\<rparr>"

definition handleTakeOver :: "LiveAgent \<Rightarrow> LiveAgent" where
  "handleTakeOver s = s\<lparr>isMicMuted_set := False\<rparr>"

section \<open>Runs of calls and of callbacks\<close>

text \<open>A sequence of \<open>updateMemory\<close> calls, each with its reading of \<open>Date.now()\<close>.\<close>

fun updateMemory_calls :: "(nat \<times> string list) list \<Rightarrow> storage \<Rightarrow> storage" where
  "updateMemory_calls [] st = st"
| "updateMemory_calls ((now, newPreferences) # calls) st =
     updateMemory_calls calls (snd (updateMemory now newPreferences st))"

text \<open>
  A sequence of \<open>updateTranscript\<close> calls, each with the id and the time it would give a
  new entry.
\<close>

fun updateTranscript_calls ::
  "(string \<times> string \<times> Speaker \<times> string \<times> bool) list \<Rightarrow> TranscriptEntry list \<Rightarrow> TranscriptEntry list" where
  "updateTranscript_calls [] prev = prev"
| "updateTranscript_calls ((newId, now, sp, body, fin) # calls) prev =
     updateTranscript_calls calls (updateTranscript newId now sp body fin prev)"

text \<open>
  The callbacks of the component in the order the event loop runs them: a message of the
  session, a render, the End button, the end of a source node's playback, the Start
  button (with whether an API key is set and the clock of the new output context), the
  microphone request settling for a suspended \<open>connectToLiveAPI\<close>, the session promise
  resolving, the session's open, close and error callbacks, and the two mute controls.
\<close>

datatype event =
    Message env LiveServerMessage
  | Rendered
  | End_pressed
  | Source_ended nat
  | Start_pressed bool real
  | Microphone_settled "string option" suspended
  | Session_resolved nat
  | Opened
  | Closed
  | Errored
  | Mute_toggled
  | Take_over

fun dispatch :: "event \<Rightarrow> LiveAgent \<Rightarrow> error + LiveAgent" where
  "dispatch (Message e message) s = onmessage e message s"
| "dispatch Rendered s = Inr (render s)"
| "dispatch End_pressed s = Inr (stopAudio s)"
| "dispatch (Source_ended node) s = Inr (ended node s)"
| "dispatch (Start_pressed api_key now) s = Inr (snd (connectToLiveAPI api_key now s))"
| "dispatch (Microphone_settled refused c) s = Inr (snd (connect_resume refused c s))"
| "dispatch (Session_resolved session) s = Inr (session_resolved session s)"
| "dispatch Opened s = Inr (onopen s)"
| "dispatch Closed s = Inr (onclose s)"
| "dispatch Errored s = Inr (onerror s)"
| "dispatch Mute_toggled s = Inr (toggleMute s)"
| "dispatch Take_over s = Inr (handleTakeOver s)"

text \<open>A run of callbacks; one that throws ends the run.\<close>

fun run :: "event list \<Rightarrow> LiveAgent \<Rightarrow> error + LiveAgent" where
  "run [] s = Inr s"
| "run (ev # evs) s = (case dispatch ev s of Inl err \<Rightarrow> Inl err | Inr s' \<Rightarrow> run evs s')"

section \<open>Messages with one part, and what is observed after a run\<close>

text \<open>
  Messages with nothing in them or with one part: a transcription delta of a speaker, a
  turn completion, an audio payload, an interruption.
\<close>

definition empty_message :: LiveServerMessage where
  "empty_message =
     \<lparr>outputTranscription = None, inputTranscription = None, turnComplete = False,
      toolCall = None, inlineData = None, interrupted = False\<rparr>"

definition delta_message :: "Speaker \<Rightarrow> string \<Rightarrow> LiveServerMessage" where
  "delta_message sp delta =
     empty_message
       \<lparr>outputTranscription := (case sp of agent \<Rightarrow> Some delta | user \<Rightarrow> None),
        inputTranscription := (case sp of user \<Rightarrow> Some delta | agent \<Rightarrow> None)\<rparr>"

definition turn_complete_message :: LiveServerMessage where
  "turn_complete_message = empty_message\<lparr>turnComplete := True\<rparr>"

definition audio_message :: "string \<Rightarrow> LiveServerMessage" where
  "audio_message base64Audio = empty_message\<lparr>inlineData := Some base64Audio\<rparr>"

definition interrupted_message :: LiveServerMessage where
  "interrupted_message = empty_message\<lparr>interrupted := True\<rparr>"

text \<open>What the transcript panel shows after a run: speaker, text and finality of each entry.\<close>

definition shown_transcript :: "error + LiveAgent \<Rightarrow> (Speaker \<times> string \<times> bool) list option" where
  "shown_transcript r =
     (case r of
        Inl err \<Rightarrow> None
      | Inr s \<Rightarrow> Some (map (\<lambda>x. (speaker x, text_te x, isFinal x)) (transcripts s)))"

text \<open>The playback schedule after a run.\<close>

definition schedule_after :: "error + LiveAgent \<Rightarrow> (real \<times> real) list option" where
  "schedule_after r = (case r of Inl err \<Rightarrow> None | Inr s \<Rightarrow> Some (started s))"

text \<open>The agent state the page shows after a run.\<close>

definition agentState_after :: "error + LiveAgent \<Rightarrow> AgentState option" where
  "agentState_after r = (case r of Inl err \<Rightarrow> None | Inr s \<Rightarrow> Some (agentState s))"

section \<open>Auxiliary notions\<close>

text \<open>
  \<open>kept prev new\<close>: the transcript \<open>new\<close> still has, at its position, every entry of
  \<open>prev\<close> that was final or not the last one.
\<close>

definition kept :: "TranscriptEntry list \<Rightarrow> TranscriptEntry list \<Rightarrow> bool" where
  "kept prev new \<longleftrightarrow>
     length prev \<le> length new \<and>
     (\<forall>i < length prev. isFinal (prev ! i) \<or> Suc i < length prev \<longrightarrow>
        new ! i = prev ! i)"

text \<open>
  \<open>tools_only s s'\<close>: the two states differ at most in the active-call details, the agent
  state and mute flag handed to their setters, and the storage.
\<close>

definition tools_only :: "LiveAgent \<Rightarrow> LiveAgent \<Rightarrow> bool" where
  "tools_only s s' \<longleftrightarrow>
     s' = s\<lparr>activeCallDetails := activeCallDetails s', agentState_set := agentState_set s',
            isMicMuted_set := isMicMuted_set s', localStorage := localStorage s'\<rparr>"

text \<open>
  The entries an update for a speaker leaves in front of the entry it writes: all of them,
  or all but a trailing non-final entry of that speaker.
\<close>

definition entries_before :: "Speaker \<Rightarrow> TranscriptEntry list \<Rightarrow> TranscriptEntry list" where
  "entries_before sp prev =
     (if prev \<noteq> [] \<and> speaker (last prev) = sp \<and> \<not> isFinal (last prev) then butlast prev
      else prev)"

text \<open>The accumulator of a speaker.\<close>

definition accumulated :: "Speaker \<Rightarrow> LiveAgent \<Rightarrow> string" where
  "accumulated sp s = (case sp of user \<Rightarrow> currentInputTransRef s | agent \<Rightarrow> currentOutputTransRef s)"

text \<open>The first three parts of the handler, not suspended.\<close>

definition before_interruption :: "env \<Rightarrow> LiveServerMessage \<Rightarrow> LiveAgent \<Rightarrow> LiveAgent" where
  "before_interruption e m s =
     handleAudio (\<lambda>s. s) e m
       (handleToolCall (\<lambda>fc s. s) e m (handleTurnComplete e m (handleTranscription e m s)))"

text \<open>
  The schedule in the words of the specification (4.3), to compare the handler with: from
  a cursor and the playback clock and duration of each buffer in arrival order, every
  buffer starts at the maximum of the clock and the cursor, and the cursor then advances
  by that buffer's duration.
\<close>

fun spec_schedule :: "real \<Rightarrow> (real \<times> real) list \<Rightarrow> (real \<times> real) list" where
  "spec_schedule cursor [] = []"
| "spec_schedule cursor ((clock, duration) # rest) =
     (max clock cursor, duration) # spec_schedule (max clock cursor + duration) rest"

fun spec_cursor :: "real \<Rightarrow> (real \<times> real) list \<Rightarrow> real" where
  "spec_cursor cursor [] = cursor"
| "spec_cursor cursor ((clock, duration) # rest) = spec_cursor (max clock cursor + duration) rest"

text \<open>The audio payloads of a run of messages: the clock at scheduling and the decoded duration.\<close>

fun audio_payloads :: "(env \<times> LiveServerMessage) list \<Rightarrow> (real \<times> real) list" where
  "audio_payloads [] = []"
| "audio_payloads ((e, message) # rest) =
     (case inlineData message of
        Some base64Audio \<Rightarrow>
          if base64Audio \<noteq> [] then (currentTime e, decodeAudioData e base64Audio) # audio_payloads rest
          else audio_payloads rest
      | None \<Rightarrow> audio_payloads rest)"

section \<open>Example inputs\<close>

text \<open>An environment, an empty storage and a batch of three function calls.\<close>

definition example_env :: env where
  "example_env =
     \<lparr>random_id = (\<lambda>k. ''r4nd0m1d''), localeTime = (\<lambda>k. ''10:00:00 AM''), dateNow = 1700000000000,
      currentTime = 1, decodeAudioData = (\<lambda>payload. 2)\<rparr>"

definition empty_storage :: storage where
  "empty_storage = \<lparr>vox_calls = Missing, vox_memory = Missing\<rparr>"

definition example_batch :: "FunctionCall list" where
  "example_batch =
     [\<lparr>id_fc = ''call-1'', name_fc = ''execute_call'',
        args = (\<lambda>k. if k = ''recipientName'' then ''Luigi'' else if k = ''phoneNumber'' then ''555-0100''
                    else if k = ''objective'' then ''Book a table'' else [])\<rparr>,
      \<lparr>id_fc = ''call-2'', name_fc = ''save_user_preference'',
        args = (\<lambda>k. if k = ''preference'' then ''Likes window seats'' else [])\<rparr>,
      \<lparr>id_fc = ''call-3'', name_fc = ''send_fax'', args = (\<lambda>k. [])\<rparr>]"

text \<open>
  A connected agent: the component is mounted, Start Session is pressed with an API key
  present, the microphone is granted, the session opens and resolves, and the page is
  rendered.
\<close>

definition example_connected :: LiveAgent where
  "example_connected =
     render (onopen (session_resolved 0
       (snd (connect_resume None (Awaiting_microphone 0 1)
          (snd (connectToLiveAPI True 0 (mount empty_storage)))))))"

text \<open>
  Two function calls, and states of the connected agent: in a call, with a finalized
  entry, playing one buffer, and reconnected.
\<close>

definition example_find :: FunctionCall where
  "example_find =
     \<lparr>id_fc = ''call-4'', name_fc = ''find_business_number'',
      args = (\<lambda>k. if k = ''query'' then ''Luigi, Rome'' else [])\<rparr>"

definition example_call :: FunctionCall where
  "example_call =
     \<lparr>id_fc = ''call-1'', name_fc = ''execute_call'',
      args = (\<lambda>k. if k = ''recipientName'' then ''Luigi'' else if k = ''phoneNumber'' then ''555-0100''
                  else if k = ''objective'' then ''Book a table'' else [])\<rparr>"

definition example_in_call :: LiveAgent where
  "example_in_call =
     render (handleToolCall (\<lambda>fc s. s) example_env
       (empty_message\<lparr>toolCall := Some [example_call]\<rparr>) example_connected)"

definition example_finalized :: LiveAgent where
  "example_finalized =
     example_connected
       \<lparr>transcripts := [\<lparr>id_te = ''k3j9x0a1b'', speaker = user, text_te = ''Call Luigi'',
                          timestamp_te = ''10:00:00 AM'', isFinal = True\<rparr>]\<rparr>"

definition example_playing :: LiveAgent where
  "example_playing =
     example_connected
       \<lparr>agentState := SPEAKING, agentState_set := SPEAKING, agentStateRef := SPEAKING,
        nextStartTimeRef := 3, sourcesRef := [0], started := [(1, 2)]\<rparr>"

text \<open>
  The End button, then a new session: Start Session, the microphone granted, the promise
  of session 1 resolved.
\<close>

definition example_reconnect :: "LiveAgent \<Rightarrow> LiveAgent" where
  "example_reconnect s =
     session_resolved 1
       (snd (connect_resume None (Awaiting_microphone 2 3)
          (snd (connectToLiveAPI True 0 (render (stopAudio s))))))"

section \<open>Long-term memory\<close>

lemma Set_add_distinct: "distinct xs \<Longrightarrow> distinct (Set_add xs x)"
  by (simp add: Set_add_def)

lemma foldl_Set_add_distinct: "distinct acc \<Longrightarrow> distinct (foldl Set_add acc xs)"
  by (induction xs arbitrary: acc) (simp_all add: Set_add_distinct)

lemma foldl_Set_add_set: "set (foldl Set_add acc xs) = set acc \<union> set xs"
  by (induction xs arbitrary: acc) (auto simp: Set_add_def)

lemma foldl_Set_add_fresh: "distinct (acc @ xs) \<Longrightarrow> foldl Set_add acc xs = acc @ xs"
  by (induction xs arbitrary: acc) (auto simp: Set_add_def)

lemma Array_from_Set_distinct: "distinct (Array_from_Set xs)"
  by (simp add: Array_from_Set_def foldl_Set_add_distinct)

lemma Array_from_Set_set: "set (Array_from_Set xs) = set xs"
  by (simp add: Array_from_Set_def foldl_Set_add_set)

lemma Array_from_Set_again:
  "distinct ys \<Longrightarrow> p \<in> set ys \<Longrightarrow> Array_from_Set (ys @ [p]) = ys"
  using foldl_Set_add_fresh [of "[]" ys] by (simp add: Array_from_Set_def Set_add_def)

lemma getMemory_updateMemory:
  "preferences (getMemory n (snd (updateMemory now ps st))) =
   Array_from_Set (preferences (getMemory n' st) @ ps)"
  by (simp add: updateMemory_def getMemory_def Let_def split: item.splits)

lemma updateMemory_calls_distinct:
  "distinct (preferences (getMemory n st)) \<Longrightarrow>
   distinct (preferences (getMemory n (updateMemory_calls calls st)))"
  by (induction calls st rule: updateMemory_calls.induct)
     (simp_all add: getMemory_updateMemory [of n _ _ _ n] Array_from_Set_distinct)

lemma count_list_distinct: "distinct xs \<Longrightarrow> x \<in> set xs \<Longrightarrow> count_list xs x = 1"
  by (induction xs) auto

lemma handleToolCall_save:
  "localStorage (handleToolCall during e
       (m\<lparr>toolCall := Some [\<lparr>id_fc = i, name_fc = ''save_user_preference'', args = a\<rparr>]\<rparr>) s)
   = snd (updateMemory (dateNow e) [a ''preference''] (localStorage s))"
  by (simp add: handleToolCall_def executeFunctionCall_def sendToolResponse_def Let_def
      split: option.splits)

text \<open>
  C8. A \<open>save_user_preference\<close> call with a text that an earlier such call saved leaves the
  stored preferences as they are, with exactly one copy of that text; and the stored
  preferences have no duplicates after any one or more \<open>updateMemory\<close> calls on any
  storage, and after any calls at all on a cleared storage.
\<close>

theorem save_user_preference_idempotent:
  "(let fc = (\<lambda>i. \<lparr>id_fc = i, name_fc = ''save_user_preference'', args = a\<rparr>);
        s1 = handleToolCall d1 e1 (m1\<lparr>toolCall := Some [fc i1]\<rparr>) s;
        s2 = handleToolCall d2 e2 (m2\<lparr>toolCall := Some [fc i2]\<rparr>) s1
    in preferences (getMemory n (localStorage s2)) = preferences (getMemory n (localStorage s1))
       \<and> count_list (preferences (getMemory n (localStorage s2))) (a ''preference'') = 1)
   \<and> distinct (preferences (getMemory n (updateMemory_calls (c # calls) st)))
   \<and> distinct (preferences (getMemory n (updateMemory_calls calls (clearHistory st))))"
proof -
  let ?p = "a ''preference''"
  let ?st1 = "snd (updateMemory (dateNow e1) [?p] (localStorage s))"
  let ?ys = "preferences (getMemory n ?st1)"
  have d: "distinct ?ys" and m: "?p \<in> set ?ys"
    by (simp_all add: getMemory_updateMemory [of n _ _ _ n] Array_from_Set_distinct
        Array_from_Set_set)
  have again: "preferences (getMemory n (snd (updateMemory (dateNow e2) [?p] ?st1))) = ?ys"
    using d m by (simp add: getMemory_updateMemory [of n _ _ ?st1 n] Array_from_Set_again)
  have one: "count_list ?ys ?p = 1"
    using d m by (rule count_list_distinct)
  have seq: "distinct (preferences (getMemory n (updateMemory_calls (c # calls) st)))"
    by (cases c)
       (simp add: updateMemory_calls_distinct getMemory_updateMemory [of n _ _ _ n]
          Array_from_Set_distinct)
  have clr: "distinct (preferences (getMemory n (updateMemory_calls calls (clearHistory st))))"
    by (rule updateMemory_calls_distinct) (simp add: getMemory_def clearHistory_def)
  show ?thesis
    unfolding Let_def handleToolCall_save using again one seq clr by simp
qed

section \<open>Tool dispatcher\<close>

lemma executeFunctionCall_result:
  "fst (executeFunctionCall during e k fc s) =
     (if name_fc fc = ''execute_call'' then
        [(''status'', ''Call executed.''),
         (''note'', ''You are now connected. ACT OUT the conversation audibly for the user.'')]
      else if name_fc fc = ''find_business_number'' then
        [(''phoneNumber'', ''555-0199''), (''businessName'', args fc ''query''),
         (''address'', ''123 Mock Lane'')]
      else if name_fc fc = ''save_user_preference'' then [(''status'', ''Memory saved'')]
      else [(''result'', ''Success'')])"
  by (simp add: executeFunctionCall_def Let_def)

lemma functionCalls_loop_responses:
  "fst (functionCalls_loop during e fcs rs s) =
   rs @ map (\<lambda>fc. \<lparr>id_fr = id_fc fc, name_fr = name_fc fc,
                    response = fst (executeFunctionCall during e 0 fc s)\<rparr>) fcs"
proof (induction fcs arbitrary: rs s)
  case Nil
  show ?case by simp
next
  case (Cons fc fcs)
  have r: "fst (executeFunctionCall during e k fc s1) = fst (executeFunctionCall during e 0 fc s2)"
    for k fc s1 s2
    by (simp only: executeFunctionCall_result)
  show ?case
    by (simp add: Cons.IH split: prod.splits)
       (metis r fst_conv)
qed

text \<open>
  C6. A tool-call batch yields one response per request, in the order of the requests, each
  with the id and the name of its request, whatever runs while the handler is suspended;
  a request with a name the dispatcher does not know gets the response
  \<open>{result: "Success"}\<close>; and the whole batch is handed to \<open>sendToolResponse\<close> once,
  when the session reference is set.
\<close>

theorem one_response_per_request:
  assumes "toolCall m = Some fcs"
  shows "\<exists>rs s'. functionCalls_loop during e fcs [] s = (rs, s')
           \<and> handleToolCall during e m s = sendToolResponse rs s'
           \<and> sent (sendToolResponse rs s') =
               (case sessionRef s' of Some session \<Rightarrow> sent s' @ [(session, rs)] | None \<Rightarrow> sent s')
           \<and> length rs = length fcs
           \<and> map id_fr rs = map id_fc fcs
           \<and> map name_fr rs = map name_fc fcs
           \<and> (\<forall>k < length fcs.
                 name_fc (fcs ! k) \<notin> {''execute_call'', ''find_business_number'', ''save_user_preference''}
                 \<longrightarrow> response (rs ! k) = [(''result'', ''Success'')])"
proof -
  obtain rs s' where loop: "functionCalls_loop during e fcs [] s = (rs, s')"
    by (cases "functionCalls_loop during e fcs [] s")
  have rs: "rs = map (\<lambda>fc. \<lparr>id_fr = id_fc fc, name_fr = name_fc fc,
                    response = fst (executeFunctionCall during e 0 fc s)\<rparr>) fcs"
    using functionCalls_loop_responses [of during e fcs "[]" s] loop by simp
  have "handleToolCall during e m s = sendToolResponse rs s'"
    using assms loop by (simp add: handleToolCall_def)
  moreover have "sent (sendToolResponse rs s') =
      (case sessionRef s' of Some session \<Rightarrow> sent s' @ [(session, rs)] | None \<Rightarrow> sent s')"
    by (simp add: sendToolResponse_def split: option.splits)
  moreover have "length rs = length fcs" "map id_fr rs = map id_fc fcs"
    "map name_fr rs = map name_fc fcs"
    by (simp_all add: rs comp_def)
  moreover have "\<forall>k < length fcs.
      name_fc (fcs ! k) \<notin> {''execute_call'', ''find_business_number'', ''save_user_preference''}
      \<longrightarrow> response (rs ! k) = [(''result'', ''Success'')]"
    by (simp add: rs executeFunctionCall_result)
  ultimately show ?thesis using loop by blast
qed

theorem one_response_per_request_witness:
  "toolCall (empty_message\<lparr>toolCall := Some example_batch\<rparr>) = Some example_batch
   \<and> (\<exists>rs s'. functionCalls_loop (\<lambda>fc s. s) example_env example_batch []
                 (session_resolved 0 (mount empty_storage)) = (rs, s')
         \<and> map id_fr rs = [''call-1'', ''call-2'', ''call-3'']
         \<and> response (rs ! 2) = [(''result'', ''Success'')]
         \<and> sent (handleToolCall (\<lambda>fc s. s) example_env (empty_message\<lparr>toolCall := Some example_batch\<rparr>)
                   (session_resolved 0 (mount empty_storage))) = [(0, rs)])"
proof -
  have h: "toolCall (empty_message\<lparr>toolCall := Some example_batch\<rparr>) = Some example_batch"
    by simp
  from one_response_per_request [OF h, of "\<lambda>fc s. s" example_env "session_resolved 0 (mount empty_storage)"]
  obtain rs s' where a: "functionCalls_loop (\<lambda>fc s. s) example_env example_batch []
                 (session_resolved 0 (mount empty_storage)) = (rs, s')"
    and b: "handleToolCall (\<lambda>fc s. s) example_env (empty_message\<lparr>toolCall := Some example_batch\<rparr>)
                   (session_resolved 0 (mount empty_storage)) = sendToolResponse rs s'"
    and c: "sent (sendToolResponse rs s') =
               (case sessionRef s' of Some session \<Rightarrow> sent s' @ [(session, rs)] | None \<Rightarrow> sent s')"
    and d: "map id_fr rs = map id_fc example_batch"
    and l: "length rs = length example_batch"
    and u: "\<forall>k < length example_batch.
                 name_fc (example_batch ! k) \<notin> {''execute_call'', ''find_business_number'', ''save_user_preference''}
                 \<longrightarrow> response (rs ! k) = [(''result'', ''Success'')]"
    by blast
  have s': "sessionRef s' = Some 0" "sent s' = []"
    using a by (auto simp: example_batch_def executeFunctionCall_def Let_def session_resolved_def
        mount_def setAgentState_def)
  have "response (rs ! 2) = [(''result'', ''Success'')]"
    using u by (simp add: example_batch_def)
  moreover have "map id_fr rs = [''call-1'', ''call-2'', ''call-3'']"
    using d by (simp add: example_batch_def)
  ultimately show ?thesis
    using a b c s' h by simp
qed

section \<open>What the parts of the handler leave alone\<close>

lemma stop_each_Inr:
  "stop_each ns s = Inr s' \<Longrightarrow> s' = s\<lparr>stopCalls := stopCalls s @ ns\<rparr>"
proof (induction ns arbitrary: s)
  case Nil
  then show ?case by simp
next
  case (Cons n ns)
  from Cons.prems have n: "n < length (started s)"
    by (simp add: stop_source_def split: if_splits)
  with Cons.prems have "stop_each ns (s\<lparr>stopCalls := stopCalls s @ [n]\<rparr>) = Inr s'"
    by (simp add: stop_source_def)
  from Cons.IH [OF this] show ?case by simp
qed

lemma stop_each_started:
  "\<forall>n \<in> set ns. n < length (started s) \<Longrightarrow>
   stop_each ns s = Inr (s\<lparr>stopCalls := stopCalls s @ ns\<rparr>)"
proof (induction ns arbitrary: s)
  case Nil
  then show ?case by simp
next
  case (Cons n ns)
  let ?s1 = "s\<lparr>stopCalls := stopCalls s @ [n]\<rparr>"
  have "\<forall>k \<in> set ns. k < length (started ?s1)"
    using Cons.prems by simp
  from Cons.IH [OF this] Cons.prems show ?case
    by (simp add: stop_source_def)
qed

lemma stop_each_caught_eq:
  "stop_each_caught ns s =
   s\<lparr>stopCalls := stopCalls s @ filter (\<lambda>n. n < length (started s)) ns\<rparr>"
  by (induction ns arbitrary: s) (simp_all add: stop_source_def)

lemma tools_only_refl: "tools_only s s"
  by (simp add: tools_only_def)

lemma tools_only_trans: "tools_only s s1 \<Longrightarrow> tools_only s1 s2 \<Longrightarrow> tools_only s s2"
  unfolding tools_only_def
proof -
  assume a: "s1 = s\<lparr>activeCallDetails := activeCallDetails s1, agentState_set := agentState_set s1,
            isMicMuted_set := isMicMuted_set s1, localStorage := localStorage s1\<rparr>"
    and b: "s2 = s1\<lparr>activeCallDetails := activeCallDetails s2, agentState_set := agentState_set s2,
            isMicMuted_set := isMicMuted_set s2, localStorage := localStorage s2\<rparr>"
  show "s2 = s\<lparr>activeCallDetails := activeCallDetails s2, agentState_set := agentState_set s2,
            isMicMuted_set := isMicMuted_set s2, localStorage := localStorage s2\<rparr>"
    by (subst b, subst a) simp
qed

lemma executeFunctionCall_tools_only:
  "tools_only s (snd (executeFunctionCall (\<lambda>fc s. s) e k fc s))"
  by (simp add: tools_only_def executeFunctionCall_def Let_def setAgentState_def)

lemma functionCalls_loop_tools_only:
  "tools_only s (snd (functionCalls_loop (\<lambda>fc s. s) e fcs rs s))"
proof (induction fcs arbitrary: rs s)
  case Nil
  show ?case by (simp add: tools_only_refl)
next
  case (Cons fc fcs)
  show ?case
    using tools_only_trans [OF executeFunctionCall_tools_only Cons.IH]
    by (simp split: prod.splits) (metis snd_conv)
qed

lemma handleToolCall_frame:
  "\<exists>a b c d x. handleToolCall (\<lambda>fc s. s) e m s =
     s\<lparr>activeCallDetails := a, agentState_set := b, isMicMuted_set := c, localStorage := d,
       sent := x\<rparr>"
proof (cases "toolCall m")
  case None
  have "s = s\<lparr>activeCallDetails := activeCallDetails s, agentState_set := agentState_set s,
       isMicMuted_set := isMicMuted_set s, localStorage := localStorage s, sent := sent s\<rparr>"
    by simp
  with None show ?thesis
    unfolding handleToolCall_def by (simp only: option.case) blast
next
  case (Some fcs)
  obtain rs s' where loop: "functionCalls_loop (\<lambda>fc s. s) e fcs [] s = (rs, s')"
    by (cases "functionCalls_loop (\<lambda>fc s. s) e fcs [] s")
  from functionCalls_loop_tools_only [of s e fcs "[]"] loop
  have eq: "s' = s\<lparr>activeCallDetails := activeCallDetails s', agentState_set := agentState_set s',
            isMicMuted_set := isMicMuted_set s', localStorage := localStorage s'\<rparr>"
    by (simp add: tools_only_def)
  have only_sent: "sendToolResponse rs s' = s'\<lparr>sent := sent (sendToolResponse rs s')\<rparr>"
    by (simp add: sendToolResponse_def split: option.splits)
  have "sendToolResponse rs s' = s\<lparr>activeCallDetails := activeCallDetails s',
      agentState_set := agentState_set s', isMicMuted_set := isMicMuted_set s',
      localStorage := localStorage s', sent := sent (sendToolResponse rs s')\<rparr>"
    using arg_cong [OF eq, of "\<lambda>r. r\<lparr>sent := sent (sendToolResponse rs s')\<rparr>"] only_sent
    by simp
  with Some loop show ?thesis
    unfolding handleToolCall_def by (simp only: option.case prod.case) blast
qed

lemma handleToolCall_transcripts:
  "transcripts (handleToolCall (\<lambda>fc s. s) e m s) = transcripts s"
proof -
  obtain a b c d x where "handleToolCall (\<lambda>fc s. s) e m s =
     s\<lparr>activeCallDetails := a, agentState_set := b, isMicMuted_set := c, localStorage := d,
       sent := x\<rparr>"
    using handleToolCall_frame by blast
  then show ?thesis by simp
qed

lemma handleAudio_transcripts: "transcripts (handleAudio (\<lambda>s. s) e m s) = transcripts s"
  by (simp add: handleAudio_def Let_def setAgentState_def split: option.splits)

lemma handleInterruption_transcripts:
  "handleInterruption m s = Inr s' \<Longrightarrow> transcripts s' = transcripts s"
  by (auto simp: handleInterruption_def setAgentState_def split: if_splits sum.splits
      dest!: stop_each_Inr)

lemma stopAudio_transcripts: "transcripts (stopAudio s) = transcripts s"
  by (simp add: stopAudio_def Let_def setAgentState_def stop_each_caught_eq split: option.splits)

lemma other_callbacks:
  assumes "\<forall>e m. ev \<noteq> Message e m"
  shows "\<exists>s'. dispatch ev s = Inr s' \<and> transcripts s' = transcripts s
           \<and> started s' = started s \<and> set (sourcesRef s') \<subseteq> set (sourcesRef s)"
proof -
  have stop: "transcripts (stopAudio r) = transcripts r \<and> started (stopAudio r) = started r
      \<and> sourcesRef (stopAudio r) = []" for r
    by (simp add: stopAudio_def Let_def setAgentState_def stop_each_caught_eq split: option.splits)
  show ?thesis
  proof (cases ev)
    case (Message e m)
    with assms show ?thesis by simp
  next
    case End_pressed
    with stop [of s] show ?thesis by simp
  next
    case Closed
    with stop [of s] show ?thesis by (simp add: onclose_def)
  next
    case Errored
    with stop [of "s\<lparr>error_ui := Some ''Connection error. Check console.''\<rparr>"] show ?thesis
      by (simp add: onerror_def)
  next
    case (Start_pressed api_key now)
    then show ?thesis
      by (simp add: connectToLiveAPI_def connect_failed_def setAgentState_def Let_def)
  next
    case (Microphone_settled refused c)
    then show ?thesis
      by (simp add: connect_resume_def connect_failed_def setAgentState_def split: option.splits)
  qed (auto simp: render_def ended_def session_resolved_def onopen_def setAgentState_def
        toggleMute_def handleTakeOver_def)
qed

lemma example_connected_eq:
  "example_connected =
     (mount empty_storage)
       \<lparr>agentState := LISTENING, agentState_set := LISTENING, agentStateRef := LISTENING,
        audioContextRef := Some 1, inputContextRef := Some 0, sessionRef := Some 0,
        contextsCreated := 2, sessionsOpened := 1\<rparr>"
  by (simp add: example_connected_def mount_def connectToLiveAPI_def connect_resume_def
      session_resolved_def onopen_def render_def setAgentState_def Let_def)

section \<open>Entries of the transcript that no update touches\<close>

lemma kept_refl: "kept xs xs"
  by (simp add: kept_def)

lemma kept_trans: "kept xs ys \<Longrightarrow> kept ys zs \<Longrightarrow> kept xs zs"
  unfolding kept_def
  by (metis (no_types, lifting) less_le_trans order_trans)

lemma updateTranscript_kept: "kept prev (updateTranscript newId now sp txt fin prev)"
proof (cases "prev \<noteq> [] \<and> speaker (last prev) = sp \<and> \<not> isFinal (last prev)")
  case True
  then have l: "last prev = prev ! (length prev - 1)" and ne: "prev \<noteq> []"
    by (simp_all add: last_conv_nth)
  have "updateTranscript newId now sp txt fin prev ! i = prev ! i"
    if "i < length prev" "isFinal (prev ! i) \<or> Suc i < length prev" for i
  proof -
    have "Suc i < length prev"
    proof (rule ccontr)
      assume "\<not> Suc i < length prev"
      with that have "i = length prev - 1" by simp
      with that True l show False by simp
    qed
    then show ?thesis
      using True by (simp add: updateTranscript_def nth_append nth_butlast)
  qed
  moreover have "length (updateTranscript newId now sp txt fin prev) = length prev"
    using True by (simp add: updateTranscript_def)
  ultimately show ?thesis by (simp add: kept_def)
next
  case False
  then show ?thesis by (auto simp: kept_def updateTranscript_def nth_append)
qed

lemma updateTranscript_calls_kept: "kept prev (updateTranscript_calls calls prev)"
proof (induction calls prev rule: updateTranscript_calls.induct)
  case (1 prev)
  show ?case by (simp add: kept_refl)
next
  case (2 newId now sp body fin calls prev)
  show ?case
    using kept_trans [OF updateTranscript_kept "2.IH"] by simp
qed

lemma render_entry_kept: "kept (transcripts s) (transcripts (render_entry e k sp txt fin s))"
  by (simp add: render_entry_def updateTranscript_kept)

lemma handleTranscription_kept: "kept (transcripts s) (transcripts (handleTranscription e m s))"
  by (simp add: handleTranscription_def Let_def render_entry_def updateTranscript_kept kept_refl
      split: option.splits)

lemma handleTurnComplete_kept: "kept (transcripts s) (transcripts (handleTurnComplete e m s))"
proof -
  let ?s1 = "if currentInputTransRef s \<noteq> []
             then (render_entry e 1 user (currentInputTransRef s) True s)\<lparr>currentInputTransRef := []\<rparr>
             else s"
  have a: "kept (transcripts s) (transcripts ?s1)"
    by (simp add: render_entry_kept kept_refl)
  have b: "kept (transcripts ?s1)
      (transcripts (setAgentState LISTENING
         ((render_entry e 2 agent (currentOutputTransRef ?s1) True ?s1)\<lparr>currentOutputTransRef := []\<rparr>)))"
    using render_entry_kept [of ?s1] by (simp add: setAgentState_def)
  show ?thesis
    unfolding handleTurnComplete_def Let_def
    using a kept_trans [OF a b] by (simp add: kept_refl)
qed

lemma onmessage_kept:
  assumes "onmessage e m s = Inr s'"
  shows "kept (transcripts s) (transcripts s')"
proof -
  have "kept (transcripts s) (transcripts (handleTurnComplete e m (handleTranscription e m s)))"
    using kept_trans [OF handleTranscription_kept handleTurnComplete_kept] .
  moreover have "transcripts s' = transcripts (handleTurnComplete e m (handleTranscription e m s))"
    using handleInterruption_transcripts [OF assms [unfolded onmessage_def]]
    by (simp add: handleAudio_transcripts handleToolCall_transcripts)
  ultimately show ?thesis by simp
qed

lemma run_kept: "run evs s = Inr s' \<Longrightarrow> kept (transcripts s) (transcripts s')"
proof (induction evs arbitrary: s)
  case Nil
  then show ?case by (simp add: kept_refl)
next
  case (Cons ev evs)
  from Cons.prems obtain s1 where s1: "dispatch ev s = Inr s1" "run evs s1 = Inr s'"
    by (auto split: sum.splits)
  have "kept (transcripts s) (transcripts s1)"
  proof (cases "\<exists>e m. ev = Message e m")
    case True
    with s1 show ?thesis by (auto simp: onmessage_kept)
  next
    case False
    with other_callbacks [of ev s] s1 show ?thesis by (auto simp: kept_refl)
  qed
  from kept_trans [OF this Cons.IH [OF s1(2)]] show ?case .
qed

text \<open>
  C10. An entry of the transcript that is final, or that is no longer the last one, is the
  same entry at the same position after one \<open>updateTranscript\<close> call, after any sequence
  of such calls and after any run of the component's callbacks.
\<close>

theorem finalized_entries_immutable:
  assumes "i < length (transcripts s)"
    and "isFinal (transcripts s ! i) \<or> Suc i < length (transcripts s)"
  shows "updateTranscript newId now sp body fin (transcripts s) ! i = transcripts s ! i
       \<and> updateTranscript_calls calls (transcripts s) ! i = transcripts s ! i
       \<and> (\<forall>s'. run evs s = Inr s' \<longrightarrow> transcripts s' ! i = transcripts s ! i)"
proof -
  have k: "new ! i = transcripts s ! i" if "kept (transcripts s) new" for new
    using that assms unfolding kept_def by blast
  show ?thesis
    using k [OF updateTranscript_kept] k [OF updateTranscript_calls_kept] k [OF run_kept]
    by simp
qed

theorem finalized_entries_immutable_witness:
  "0 < length (transcripts example_finalized) \<and> isFinal (transcripts example_finalized ! 0)
   \<and> text_te (updateTranscript ''p0o9i8u7y'' ''10:00:05 AM'' user ''Call Mario'' False
        (transcripts example_finalized) ! 0) = ''Call Luigi''"
proof -
  have h: "0 < length (transcripts example_finalized)"
    "isFinal (transcripts example_finalized ! 0) \<or> Suc 0 < length (transcripts example_finalized)"
    by (simp_all add: example_finalized_def)
  from finalized_entries_immutable [OF h, of "''p0o9i8u7y''" "''10:00:05 AM''" user "''Call Mario''" False]
  show ?thesis by (simp add: example_finalized_def)
qed

section \<open>One transcript entry per speaker and turn\<close>

lemma updateTranscript_entries_before:
  "\<exists>x. updateTranscript newId now sp body fin prev = entries_before sp prev @ [x]
       \<and> speaker x = sp \<and> text_te x = body \<and> isFinal x = fin
       \<and> (entries_before sp prev \<noteq> prev \<longrightarrow> id_te x = id_te (last prev))"
  by (simp add: updateTranscript_def entries_before_def)

lemma entries_before_snoc: "speaker x = sp \<Longrightarrow> \<not> isFinal x \<Longrightarrow> entries_before sp (xs @ [x]) = xs"
  by (simp add: entries_before_def)

lemma onmessage_delta_agent:
  "onmessage e (delta_message agent d) s =
   Inr (s\<lparr>currentOutputTransRef := currentOutputTransRef s @ d,
          transcripts := updateTranscript (random_id e 0) (localeTime e 0) agent
             (currentOutputTransRef s @ d) False (transcripts s)\<rparr>)"
  by (simp add: onmessage_def delta_message_def empty_message_def handleTranscription_def
      handleTurnComplete_def handleToolCall_def handleAudio_def handleInterruption_def
      render_entry_def Let_def)

lemma onmessage_delta_user:
  "onmessage e (delta_message user d) s =
   Inr (s\<lparr>currentInputTransRef := currentInputTransRef s @ d,
          transcripts := updateTranscript (random_id e 0) (localeTime e 0) user
             (currentInputTransRef s @ d) False (transcripts s)\<rparr>)"
  by (simp add: onmessage_def delta_message_def empty_message_def handleTranscription_def
      handleTurnComplete_def handleToolCall_def handleAudio_def handleInterruption_def
      render_entry_def Let_def)

lemma onmessage_delta:
  "\<exists>s1 x. onmessage e (delta_message sp d) s = Inr s1
     \<and> transcripts s1 = entries_before sp (transcripts s) @ [x]
     \<and> speaker x = sp \<and> text_te x = accumulated sp s @ d \<and> \<not> isFinal x
     \<and> accumulated sp s1 = accumulated sp s @ d
     \<and> (\<forall>sp'. sp' \<noteq> sp \<longrightarrow> accumulated sp' s1 = accumulated sp' s)"
proof (cases sp)
  case user
  obtain x where "updateTranscript (random_id e 0) (localeTime e 0) user
             (currentInputTransRef s @ d) False (transcripts s) = entries_before user (transcripts s) @ [x]"
    "speaker x = user" "text_te x = currentInputTransRef s @ d" "isFinal x = False"
    using updateTranscript_entries_before by blast
  then show ?thesis
    unfolding user onmessage_delta_user by (auto simp: accumulated_def split: Speaker.splits)
next
  case agent
  obtain x where "updateTranscript (random_id e 0) (localeTime e 0) agent
             (currentOutputTransRef s @ d) False (transcripts s) = entries_before agent (transcripts s) @ [x]"
    "speaker x = agent" "text_te x = currentOutputTransRef s @ d" "isFinal x = False"
    using updateTranscript_entries_before by blast
  then show ?thesis
    unfolding agent onmessage_delta_agent by (auto simp: accumulated_def split: Speaker.splits)
qed

lemma onmessages_deltas:
  "eds \<noteq> [] \<Longrightarrow>
   \<exists>s1 x. onmessages (map (\<lambda>(e, d). (e, delta_message sp d)) eds) s = Inr s1
     \<and> transcripts s1 = entries_before sp (transcripts s) @ [x]
     \<and> speaker x = sp \<and> text_te x = accumulated sp s @ concat (map snd eds) \<and> \<not> isFinal x
     \<and> accumulated sp s1 = accumulated sp s @ concat (map snd eds)
     \<and> (\<forall>sp'. sp' \<noteq> sp \<longrightarrow> accumulated sp' s1 = accumulated sp' s)"
proof (induction eds arbitrary: s rule: list_nonempty_induct)
  case (single ed)
  obtain e d where ed: "ed = (e, d)" by (cases ed)
  from onmessage_delta [of e sp d s] show ?case
    unfolding ed by auto
next
  case (cons ed eds)
  obtain e d where ed: "ed = (e, d)" by (cases ed)
  from onmessage_delta [of e sp d s] obtain s0 x0 where
    s0: "onmessage e (delta_message sp d) s = Inr s0"
    "transcripts s0 = entries_before sp (transcripts s) @ [x0]" "speaker x0 = sp" "\<not> isFinal x0"
    "accumulated sp s0 = accumulated sp s @ d"
    "\<forall>sp'. sp' \<noteq> sp \<longrightarrow> accumulated sp' s0 = accumulated sp' s"
    by blast
  from cons.IH [of s0] obtain s1 x where
    s1: "onmessages (map (\<lambda>(e, d). (e, delta_message sp d)) eds) s0 = Inr s1"
    "transcripts s1 = entries_before sp (transcripts s0) @ [x]" "speaker x = sp"
    "text_te x = accumulated sp s0 @ concat (map snd eds)" "\<not> isFinal x"
    "accumulated sp s1 = accumulated sp s0 @ concat (map snd eds)"
    "\<forall>sp'. sp' \<noteq> sp \<longrightarrow> accumulated sp' s1 = accumulated sp' s0"
    by blast
  have "entries_before sp (transcripts s0) = entries_before sp (transcripts s)"
    using s0 by (simp add: entries_before_snoc)
  with s0 s1 show ?case
    unfolding ed by auto
qed

lemma onmessage_turn_complete:
  "onmessage e turn_complete_message s = Inr (handleTurnComplete e turn_complete_message s)"
  by (simp add: onmessage_def turn_complete_message_def empty_message_def handleTranscription_def
      handleToolCall_def handleAudio_def handleInterruption_def)

lemma turn_complete_finalizes:
  assumes "transcripts s = base @ [x]" "speaker x = sp" "\<not> isFinal x"
    and "accumulated sp s \<noteq> []" "\<forall>sp'. sp' \<noteq> sp \<longrightarrow> accumulated sp' s = []"
  shows "\<exists>s2 y. onmessage e turn_complete_message s = Inr s2
     \<and> transcripts s2 = base @ [y]
     \<and> speaker y = sp \<and> text_te y = accumulated sp s \<and> isFinal y \<and> id_te y = id_te x
     \<and> currentInputTransRef s2 = [] \<and> currentOutputTransRef s2 = []"
proof (cases sp)
  case user
  with assms have "currentInputTransRef s \<noteq> []" "currentOutputTransRef s = []"
    by (auto simp: accumulated_def split: Speaker.splits)
  with assms user show ?thesis
    unfolding onmessage_turn_complete
    by (simp add: handleTurnComplete_def turn_complete_message_def empty_message_def Let_def
        render_entry_def updateTranscript_def accumulated_def setAgentState_def)
next
  case agent
  with assms have "currentInputTransRef s = []" "currentOutputTransRef s \<noteq> []"
    by (auto simp: accumulated_def split: Speaker.splits)
  with assms agent show ?thesis
    unfolding onmessage_turn_complete
    by (simp add: handleTurnComplete_def turn_complete_message_def empty_message_def Let_def
        render_entry_def updateTranscript_def accumulated_def setAgentState_def)
qed

lemma turn_complete_empty:
  assumes "currentInputTransRef s = []" "currentOutputTransRef s = []"
  shows "onmessage e turn_complete_message s = Inr s"
  using assms unfolding onmessage_turn_complete
  by (simp add: handleTurnComplete_def turn_complete_message_def empty_message_def Let_def)

text \<open>
  Where the handler keeps to one entry per speaker and turn: in a turn that starts with
  both accumulators empty and in which only one speaker has deltas, the transcript after
  every delta is the earlier entries (without a trailing non-final entry of that speaker,
  which is taken over) followed by one non-final entry of the speaker whose text is the
  concatenation of the deltas so far. If that concatenation is not empty, the
  turn-complete signal makes this same entry final with that text and empties the
  accumulators; if it is empty, the signal changes nothing.
\<close>

lemma one_entry_per_turn:
  assumes "currentInputTransRef s = []" and "currentOutputTransRef s = []" and "eds \<noteq> []"
  shows "\<exists>s1 x. onmessages (map (\<lambda>(e, d). (e, delta_message sp d)) eds) s = Inr s1
           \<and> transcripts s1 = entries_before sp (transcripts s) @ [x]
           \<and> speaker x = sp \<and> text_te x = concat (map snd eds) \<and> \<not> isFinal x
           \<and> (\<forall>n. 0 < n \<and> n \<le> length eds \<longrightarrow>
                 (\<exists>sn xn. onmessages (map (\<lambda>(e, d). (e, delta_message sp d)) (take n eds)) s = Inr sn
                    \<and> transcripts sn = entries_before sp (transcripts s) @ [xn]
                    \<and> speaker xn = sp \<and> text_te xn = concat (map snd (take n eds)) \<and> \<not> isFinal xn))
           \<and> (concat (map snd eds) \<noteq> [] \<longrightarrow>
                 (\<exists>s2 y. onmessage e' turn_complete_message s1 = Inr s2
                    \<and> transcripts s2 = entries_before sp (transcripts s) @ [y]
                    \<and> speaker y = sp \<and> text_te y = concat (map snd eds) \<and> isFinal y
                    \<and> id_te y = id_te x
                    \<and> currentInputTransRef s2 = [] \<and> currentOutputTransRef s2 = []))
           \<and> (concat (map snd eds) = [] \<longrightarrow> onmessage e' turn_complete_message s1 = Inr s1)"
proof -
  have acc: "accumulated sp' s = []" for sp'
    using assms by (simp add: accumulated_def split: Speaker.splits)
  from onmessages_deltas [OF assms(3), of sp s] obtain s1 x where
    s1: "onmessages (map (\<lambda>(e, d). (e, delta_message sp d)) eds) s = Inr s1"
    "transcripts s1 = entries_before sp (transcripts s) @ [x]" "speaker x = sp"
    "text_te x = concat (map snd eds)" "\<not> isFinal x"
    "accumulated sp s1 = concat (map snd eds)"
    "\<forall>sp'. sp' \<noteq> sp \<longrightarrow> accumulated sp' s1 = []"
    unfolding acc by auto
  have prefixes: "\<exists>sn xn. onmessages (map (\<lambda>(e, d). (e, delta_message sp d)) (take n eds)) s = Inr sn
                    \<and> transcripts sn = entries_before sp (transcripts s) @ [xn]
                    \<and> speaker xn = sp \<and> text_te xn = concat (map snd (take n eds)) \<and> \<not> isFinal xn"
    if "0 < n \<and> n \<le> length eds" for n
  proof -
    from that assms(3) have "take n eds \<noteq> []" by (cases eds) auto
    from onmessages_deltas [OF this, of sp s] show ?thesis
      unfolding acc by auto
  qed
  have fin: "\<exists>s2 y. onmessage e' turn_complete_message s1 = Inr s2
                    \<and> transcripts s2 = entries_before sp (transcripts s) @ [y]
                    \<and> speaker y = sp \<and> text_te y = concat (map snd eds) \<and> isFinal y
                    \<and> id_te y = id_te x
                    \<and> currentInputTransRef s2 = [] \<and> currentOutputTransRef s2 = []"
    if "concat (map snd eds) \<noteq> []"
    using turn_complete_finalizes [OF s1(2) s1(3) s1(5), of e'] that s1(6,7) by simp
  have emp: "onmessage e' turn_complete_message s1 = Inr s1" if "concat (map snd eds) = []"
  proof -
    have "accumulated sp' s1 = []" for sp'
      using s1(6,7) that by (cases "sp' = sp") auto
    from this [of user] this [of agent] show ?thesis
      by (simp add: turn_complete_empty accumulated_def)
  qed
  from s1 prefixes fin emp show ?thesis by blast
qed

text \<open>Two deltas of the user and a turn completion, on a connected agent.\<close>

lemma one_entry_per_turn_example:
  "\<exists>s1 s2. onmessages [(example_env, delta_message user ''Call ''), (example_env, delta_message user ''Luigi'')]
        example_connected = Inr s1
     \<and> onmessage example_env turn_complete_message s1 = Inr s2
     \<and> shown_transcript (Inr s1) = Some [(user, ''Call Luigi'', False)]
     \<and> shown_transcript (Inr s2) = Some [(user, ''Call Luigi'', True)]"
proof -
  have h: "currentInputTransRef example_connected = []" "currentOutputTransRef example_connected = []"
    "[(example_env, ''Call ''), (example_env, ''Luigi'')] \<noteq> []"
    by (simp_all add: example_connected_eq mount_def)
  from one_entry_per_turn [OF h, of user example_env]
  obtain s1 x s2 y where
    "onmessages [(example_env, delta_message user ''Call ''), (example_env, delta_message user ''Luigi'')]
        example_connected = Inr s1"
    "transcripts s1 = entries_before user (transcripts example_connected) @ [x]"
    "speaker x = user" "text_te x = ''Call Luigi''" "\<not> isFinal x"
    "onmessage example_env turn_complete_message s1 = Inr s2"
    "transcripts s2 = entries_before user (transcripts example_connected) @ [y]"
    "speaker y = user" "text_te y = ''Call Luigi''" "isFinal y"
    by auto
  then show ?thesis
    by (auto simp: shown_transcript_def entries_before_def example_connected_eq mount_def)
qed

text \<open>
  C1. The ordinary turn: the user's deltas, the agent's deltas, the turn-complete signal.
  The final texts are the concatenations of each speaker's deltas in arrival order, but
  each speaker ends the turn with two entries instead of one: when the turn completes,
  the entry of the user is no longer the last one, so finalizing it appends a second
  entry and leaves the first non-final, after which the same happens to the entry of the
  agent.
\<close>

theorem two_entries_per_turn:
  "shown_transcript (onmessages
      [(example_env, delta_message user ''Call ''),
       (example_env, delta_message user ''Luigi''),
       (example_env, delta_message agent ''Dialing ''),
       (example_env, delta_message agent ''now''),
       (example_env, turn_complete_message)] example_connected)
   = Some [(user, ''Call Luigi'', False), (agent, ''Dialing now'', False),
           (user, ''Call Luigi'', True), (agent, ''Dialing now'', True)]"
  by (simp add: shown_transcript_def onmessage_def handleTranscription_def handleTurnComplete_def
      handleToolCall_def handleAudio_def handleInterruption_def delta_message_def
      turn_complete_message_def empty_message_def render_entry_def updateTranscript_def
      setAgentState_def example_connected_eq mount_def example_env_def Let_def)

section \<open>Playback schedule\<close>

lemma spec_schedule_length: "length (spec_schedule c ps) = length ps"
  by (induction c ps rule: spec_schedule.induct) simp_all

lemma spec_schedule_append:
  "spec_schedule c (ps @ qs) = spec_schedule c ps @ spec_schedule (spec_cursor c ps) qs"
  by (induction c ps rule: spec_schedule.induct) simp_all

lemma spec_cursor_append: "spec_cursor c (ps @ qs) = spec_cursor (spec_cursor c ps) qs"
  by (induction c ps rule: spec_cursor.induct) simp_all

lemma spec_schedule_lower:
  "\<forall>p \<in> set ps. 0 \<le> snd p \<Longrightarrow> x \<in> set (spec_schedule c ps) \<Longrightarrow> c \<le> fst x"
proof (induction c ps rule: spec_schedule.induct)
  case (1 cursor)
  then show ?case by simp
next
  case (2 cursor clock duration rest)
  then show ?case by (auto simp: max_def split: if_splits)
qed

lemma spec_schedule_no_overlap:
  "\<forall>p \<in> set ps. 0 \<le> snd p \<Longrightarrow>
   sorted_wrt (\<lambda>x y. fst x + snd x \<le> fst y) (spec_schedule c ps)"
proof (induction c ps rule: spec_schedule.induct)
  case (1 cursor)
  show ?case by simp
next
  case (2 cursor clock duration rest)
  then have "\<forall>y \<in> set (spec_schedule (max clock cursor + duration) rest).
      max clock cursor + duration \<le> fst y"
    using spec_schedule_lower [of rest] by auto
  with 2 show ?case by simp
qed

lemma spec_schedule_successive:
  "Suc n < length (spec_schedule c ps) \<Longrightarrow>
   fst (spec_schedule c ps ! n) + snd (spec_schedule c ps ! n) \<le> fst (spec_schedule c ps ! Suc n)"
proof (induction c ps arbitrary: n rule: spec_schedule.induct)
  case (1 cursor)
  then show ?case by simp
next
  case (2 cursor clock duration rest)
  show ?case
  proof (cases n)
    case 0
    with "2.prems" show ?thesis by (cases rest) auto
  next
    case (Suc k)
    with 2 show ?thesis by simp
  qed
qed

lemma handleTranscription_audio:
  "started (handleTranscription e m s) = started s"
  "nextStartTimeRef (handleTranscription e m s) = nextStartTimeRef s"
  "sourcesRef (handleTranscription e m s) = sourcesRef s"
  "stopCalls (handleTranscription e m s) = stopCalls s"
  by (simp_all add: handleTranscription_def render_entry_def Let_def split: option.splits)

lemma handleTurnComplete_audio:
  "started (handleTurnComplete e m s) = started s"
  "nextStartTimeRef (handleTurnComplete e m s) = nextStartTimeRef s"
  "sourcesRef (handleTurnComplete e m s) = sourcesRef s"
  "stopCalls (handleTurnComplete e m s) = stopCalls s"
  by (simp_all add: handleTurnComplete_def render_entry_def Let_def setAgentState_def)

lemma handleToolCall_audio:
  "started (handleToolCall (\<lambda>fc s. s) e m s) = started s"
  "nextStartTimeRef (handleToolCall (\<lambda>fc s. s) e m s) = nextStartTimeRef s"
  "sourcesRef (handleToolCall (\<lambda>fc s. s) e m s) = sourcesRef s"
  "stopCalls (handleToolCall (\<lambda>fc s. s) e m s) = stopCalls s"
proof -
  obtain a b c d x where "handleToolCall (\<lambda>fc s. s) e m s =
     s\<lparr>activeCallDetails := a, agentState_set := b, isMicMuted_set := c, localStorage := d,
       sent := x\<rparr>"
    using handleToolCall_frame by blast
  then show "started (handleToolCall (\<lambda>fc s. s) e m s) = started s"
    "nextStartTimeRef (handleToolCall (\<lambda>fc s. s) e m s) = nextStartTimeRef s"
    "sourcesRef (handleToolCall (\<lambda>fc s. s) e m s) = sourcesRef s"
    "stopCalls (handleToolCall (\<lambda>fc s. s) e m s) = stopCalls s"
    by simp_all
qed

lemma handleAudio_audio:
  "started (handleAudio (\<lambda>s. s) e m s) =
     started s @ spec_schedule (nextStartTimeRef s) (audio_payloads [(e, m)])"
  "nextStartTimeRef (handleAudio (\<lambda>s. s) e m s) =
     spec_cursor (nextStartTimeRef s) (audio_payloads [(e, m)])"
  "sourcesRef (handleAudio (\<lambda>s. s) e m s) =
     (if audio_payloads [(e, m)] = [] then sourcesRef s
      else Set_add (sourcesRef s) (length (started s)))"
  "stopCalls (handleAudio (\<lambda>s. s) e m s) = stopCalls s"
  by (simp_all add: handleAudio_def Let_def setAgentState_def max.commute split: option.splits)

lemma before_interruption_audio:
  "started (before_interruption e m s) =
     started s @ spec_schedule (nextStartTimeRef s) (audio_payloads [(e, m)])"
  "nextStartTimeRef (before_interruption e m s) =
     spec_cursor (nextStartTimeRef s) (audio_payloads [(e, m)])"
  "sourcesRef (before_interruption e m s) =
     (if audio_payloads [(e, m)] = [] then sourcesRef s
      else Set_add (sourcesRef s) (length (started s)))"
  "stopCalls (before_interruption e m s) = stopCalls s"
  by (simp_all only: before_interruption_def handleAudio_audio handleToolCall_audio
      handleTurnComplete_audio handleTranscription_audio)

lemma onmessage_not_interrupted:
  "\<not> interrupted m \<Longrightarrow> onmessage e m s = Inr (before_interruption e m s)"
  by (simp add: onmessage_def before_interruption_def handleInterruption_def)

lemma onmessages_schedule:
  "\<forall>(e, m) \<in> set evs. \<not> interrupted m \<Longrightarrow>
   \<exists>s'. onmessages evs s = Inr s'
     \<and> started s' = started s @ spec_schedule (nextStartTimeRef s) (audio_payloads evs)
     \<and> nextStartTimeRef s' = spec_cursor (nextStartTimeRef s) (audio_payloads evs)"
proof (induction evs arbitrary: s)
  case Nil
  show ?case by simp
next
  case (Cons ev evs)
  obtain e m where ev: "ev = (e, m)" by (cases ev)
  let ?s1 = "before_interruption e m s"
  from Cons.prems have ni: "\<not> interrupted m" and rest: "\<forall>(e, m) \<in> set evs. \<not> interrupted m"
    unfolding ev by auto
  from Cons.IH [OF rest, of ?s1] obtain s' where
    s': "onmessages evs ?s1 = Inr s'"
    "started s' = started ?s1 @ spec_schedule (nextStartTimeRef ?s1) (audio_payloads evs)"
    "nextStartTimeRef s' = spec_cursor (nextStartTimeRef ?s1) (audio_payloads evs)"
    by blast
  have split: "audio_payloads ((e, m) # evs) = audio_payloads [(e, m)] @ audio_payloads evs"
    by (simp split: option.splits)
  show ?case
    unfolding ev split spec_schedule_append spec_cursor_append
    using s' by (simp only: onmessages.simps onmessage_not_interrupted [OF ni] sum.case
        before_interruption_audio append_assoc) simp
qed

text \<open>
  C2. For every run of messages without an interruption, the handler schedules the audio
  payloads exactly as the specification's schedule does from the cursor it starts with:
  each buffer at the maximum of the playback clock and the cursor, the cursor then
  advanced by the buffer's duration. Each scheduled buffer starts no earlier than the start
  of the one before it plus that one's duration, and, durations not being negative, no
  two scheduled buffers overlap.
\<close>

theorem playback_back_to_back:
  assumes "\<forall>(e, m) \<in> set evs. \<not> interrupted m"
  shows "\<exists>s' new. onmessages evs s = Inr s'
     \<and> started s' = started s @ new
     \<and> new = spec_schedule (nextStartTimeRef s) (audio_payloads evs)
     \<and> nextStartTimeRef s' = spec_cursor (nextStartTimeRef s) (audio_payloads evs)
     \<and> (\<forall>n. Suc n < length new \<longrightarrow> fst (new ! n) + snd (new ! n) \<le> fst (new ! Suc n))
     \<and> ((\<forall>p \<in> set (audio_payloads evs). 0 \<le> snd p) \<longrightarrow>
          (\<forall>i j. i < j \<and> j < length new \<longrightarrow> fst (new ! i) + snd (new ! i) \<le> fst (new ! j)))"
proof -
  let ?new = "spec_schedule (nextStartTimeRef s) (audio_payloads evs)"
  from onmessages_schedule [OF assms, of s] obtain s' where
    s': "onmessages evs s = Inr s'" "started s' = started s @ ?new"
    "nextStartTimeRef s' = spec_cursor (nextStartTimeRef s) (audio_payloads evs)"
    by blast
  have succ: "\<forall>n. Suc n < length ?new \<longrightarrow> fst (?new ! n) + snd (?new ! n) \<le> fst (?new ! Suc n)"
    using spec_schedule_successive by blast
  have pair: "(\<forall>p \<in> set (audio_payloads evs). 0 \<le> snd p) \<longrightarrow>
          (\<forall>i j. i < j \<and> j < length ?new \<longrightarrow> fst (?new ! i) + snd (?new ! i) \<le> fst (?new ! j))"
  proof
    assume "\<forall>p \<in> set (audio_payloads evs). 0 \<le> snd p"
    from spec_schedule_no_overlap [OF this, of "nextStartTimeRef s"]
    show "\<forall>i j. i < j \<and> j < length ?new \<longrightarrow> fst (?new ! i) + snd (?new ! i) \<le> fst (?new ! j)"
      by (simp add: sorted_wrt_iff_nth_less)
  qed
  from s' succ pair show ?thesis by blast
qed

theorem playback_back_to_back_witness:
  "schedule_after (onmessages
      [(example_env, audio_message ''UklGRg==''), (example_env, audio_message ''AAAA'')]
      example_connected)
   = Some [(1, 2), (3, 2)]"
proof -
  have h: "\<forall>(e, m) \<in> set [(example_env, audio_message ''UklGRg==''), (example_env, audio_message ''AAAA'')].
             \<not> interrupted m"
    by (simp add: audio_message_def empty_message_def)
  from playback_back_to_back [OF h, of example_connected]
  obtain s' where "onmessages
      [(example_env, audio_message ''UklGRg==''), (example_env, audio_message ''AAAA'')]
      example_connected = Inr s'"
    "started s' = started example_connected @ spec_schedule (nextStartTimeRef example_connected)
       (audio_payloads [(example_env, audio_message ''UklGRg==''), (example_env, audio_message ''AAAA'')])"
    by blast
  then show ?thesis
    by (simp add: schedule_after_def audio_message_def empty_message_def example_env_def
        example_connected_eq mount_def)
qed

section \<open>Interruption\<close>

lemma before_interruption_cases:
  "(started (before_interruption e m s) = started s
      \<and> sourcesRef (before_interruption e m s) = sourcesRef s)
   \<or> (\<exists>x. started (before_interruption e m s) = started s @ [x]
      \<and> sourcesRef (before_interruption e m s) = Set_add (sourcesRef s) (length (started s)))"
  by (cases "inlineData m") (simp_all add: before_interruption_audio)

lemma before_interruption_sources_started:
  assumes "\<forall>n \<in> set (sourcesRef s). n < length (started s)"
  shows "\<forall>n \<in> set (sourcesRef (before_interruption e m s)).
           n < length (started (before_interruption e m s))"
    and "set (sourcesRef s) \<subseteq> set (sourcesRef (before_interruption e m s))"
  using before_interruption_cases [of e m s] assms
  by (auto simp: Set_add_def less_Suc_eq split: if_splits)

lemma onmessage_result:
  assumes "\<forall>n \<in> set (sourcesRef s). n < length (started s)"
  shows "onmessage e m s =
     Inr (if interrupted m
          then setAgentState LISTENING
                 ((before_interruption e m s)
                    \<lparr>stopCalls := stopCalls s @ sourcesRef (before_interruption e m s),
                     sourcesRef := [], nextStartTimeRef := 0, currentOutputTransRef := []\<rparr>)
          else before_interruption e m s)"
proof (cases "interrupted m")
  case False
  then show ?thesis by (simp add: onmessage_not_interrupted)
next
  case True
  define b where "b = before_interruption e m s"
  have "\<forall>n \<in> set (sourcesRef b). n < length (started b)"
    unfolding b_def using assms by (rule before_interruption_sources_started)
  from stop_each_started [OF this] True
  have "handleInterruption m b =
      Inr (setAgentState LISTENING
             (b\<lparr>stopCalls := stopCalls b @ sourcesRef b,
                sourcesRef := [], nextStartTimeRef := 0, currentOutputTransRef := []\<rparr>))"
    by (simp add: handleInterruption_def)
  moreover have "stopCalls b = stopCalls s"
    by (simp add: b_def before_interruption_audio)
  moreover have "onmessage e m s = handleInterruption m b"
    by (simp add: onmessage_def b_def before_interruption_def)
  ultimately show ?thesis
    using True by (simp add: b_def)
qed

lemma onmessage_sources_started:
  assumes "\<forall>n \<in> set (sourcesRef s). n < length (started s)" and "onmessage e m s = Inr s'"
  shows "\<forall>n \<in> set (sourcesRef s'). n < length (started s')"
proof (cases "interrupted m")
  case True
  with assms(2) show ?thesis
    unfolding onmessage_result [OF assms(1)] by (auto simp: setAgentState_def)
next
  case False
  with assms(2) have "s' = before_interruption e m s"
    unfolding onmessage_result [OF assms(1)] by simp
  then show ?thesis
    using before_interruption_sources_started(1) [OF assms(1)] by simp
qed

text \<open>
  C3. A message with the interruption flag, handled in a state whose active sources have
  all been started, stops every source of the active set, leaves the set empty and the
  cursor at zero; the audio payload of the next message is then scheduled to start at the
  playback clock of that moment, and the payloads of any messages that follow are
  scheduled as from a cursor at zero, whatever the cursor was before the interruption.
\<close>

theorem interruption_resets_playback:
  assumes "interrupted m" and "\<forall>n \<in> set (sourcesRef s). n < length (started s)"
    and "inlineData m' = Some b" and "b \<noteq> []" and "0 \<le> currentTime e'"
    and "\<forall>(e, m) \<in> set evs. \<not> interrupted m"
  shows "\<exists>s1 s2 s3. onmessage e m s = Inr s1
     \<and> set (sourcesRef s) \<subseteq> set (stopCalls s1) \<and> sourcesRef s1 = [] \<and> nextStartTimeRef s1 = 0
     \<and> onmessage e' m' s1 = Inr s2
     \<and> started s2 = started s1 @ [(currentTime e', decodeAudioData e' b)]
     \<and> onmessages evs s1 = Inr s3
     \<and> started s3 = started s1 @ spec_schedule 0 (audio_payloads evs)"
proof -
  define s1 where "s1 = setAgentState LISTENING
      ((before_interruption e m s)\<lparr>stopCalls := stopCalls s @ sourcesRef (before_interruption e m s),
          sourcesRef := [], nextStartTimeRef := 0, currentOutputTransRef := []\<rparr>)"
  have run1: "onmessage e m s = Inr s1"
    using onmessage_result [OF assms(2), of e m] assms(1) by (simp add: s1_def)
  have fields: "sourcesRef s1 = []" "nextStartTimeRef s1 = 0"
    "stopCalls s1 = stopCalls s @ sourcesRef (before_interruption e m s)"
    by (simp_all add: s1_def setAgentState_def)
  have sub: "set (sourcesRef s) \<subseteq> set (stopCalls s1)"
    unfolding fields using before_interruption_sources_started(2) [OF assms(2), of e m] by auto
  have inv: "\<forall>n \<in> set (sourcesRef s1). n < length (started s1)"
    unfolding fields by simp
  have pay: "audio_payloads [(e', m')] = [(currentTime e', decodeAudioData e' b)]"
    using assms(3,4) by simp
  have st: "started (before_interruption e' m' s1) =
      started s1 @ [(currentTime e', decodeAudioData e' b)]"
    using assms(5) by (simp add: before_interruption_audio(1) pay fields del: audio_payloads.simps)
  obtain s2 where s2: "onmessage e' m' s1 = Inr s2"
    "started s2 = started (before_interruption e' m' s1)"
    using onmessage_result [OF inv, of e' m']
    by (cases "interrupted m'") (simp_all add: setAgentState_def)
  obtain s3 where s3: "onmessages evs s1 = Inr s3"
    "started s3 = started s1 @ spec_schedule 0 (audio_payloads evs)"
    using onmessages_schedule [OF assms(6), of s1] fields(2) by auto
  from run1 sub fields(1,2) s2 st s3 show ?thesis
    by (intro exI [of _ s1] exI [of _ s2] exI [of _ s3]) simp
qed

theorem interruption_resets_playback_witness:
  "\<exists>s1 s2 s3. onmessage example_env interrupted_message example_playing = Inr s1
     \<and> 0 \<in> set (stopCalls s1) \<and> sourcesRef s1 = [] \<and> nextStartTimeRef s1 = 0
     \<and> onmessage example_env (audio_message ''AAAA'') s1 = Inr s2
     \<and> started s2 = started s1 @ [(1, 2)]
     \<and> onmessages [(example_env, audio_message ''AAAA''), (example_env, audio_message ''BBBB'')] s1
          = Inr s3
     \<and> started s3 = started s1 @ [(1, 2), (3, 2)]"
proof -
  have h: "interrupted interrupted_message"
    "\<forall>n \<in> set (sourcesRef example_playing). n < length (started example_playing)"
    "inlineData (audio_message ''AAAA'') = Some ''AAAA''" "''AAAA'' \<noteq> []"
    "0 \<le> currentTime example_env"
    "\<forall>(e, m) \<in> set [(example_env, audio_message ''AAAA''), (example_env, audio_message ''BBBB'')].
       \<not> interrupted m"
    by (simp_all add: interrupted_message_def audio_message_def empty_message_def
        example_playing_def example_env_def)
  from interruption_resets_playback [OF h, of example_env]
  obtain s1 s2 s3 where "onmessage example_env interrupted_message example_playing = Inr s1"
    "set (sourcesRef example_playing) \<subseteq> set (stopCalls s1)" "sourcesRef s1 = []"
    "nextStartTimeRef s1 = 0" "onmessage example_env (audio_message ''AAAA'') s1 = Inr s2"
    "started s2 = started s1 @ [(currentTime example_env, decodeAudioData example_env ''AAAA'')]"
    "onmessages [(example_env, audio_message ''AAAA''), (example_env, audio_message ''BBBB'')] s1
       = Inr s3"
    "started s3 = started s1 @ spec_schedule 0
       (audio_payloads [(example_env, audio_message ''AAAA''), (example_env, audio_message ''BBBB'')])"
    by blast
  then show ?thesis
    by (auto simp: example_playing_def example_env_def audio_message_def empty_message_def)
qed

text \<open>
  The hypothesis on the active sources holds in every state the component reaches:
  sources enter the set only after \<open>start\<close>, so no callback ever throws.
\<close>

lemma dispatch_sources_started:
  assumes "\<forall>n \<in> set (sourcesRef s). n < length (started s)"
  shows "\<exists>s'. dispatch ev s = Inr s' \<and> (\<forall>n \<in> set (sourcesRef s'). n < length (started s'))"
proof (cases "\<exists>e m. ev = Message e m")
  case True
  then obtain e m where ev: "ev = Message e m" by blast
  from onmessage_result [OF assms, of e m] obtain s' where s': "onmessage e m s = Inr s'"
    by simp
  with onmessage_sources_started [OF assms s'] ev show ?thesis by simp
next
  case False
  from other_callbacks [of ev s] False obtain s' where
    "dispatch ev s = Inr s'" "started s' = started s" "set (sourcesRef s') \<subseteq> set (sourcesRef s)"
    by blast
  with assms show ?thesis by (intro exI [of _ s']) (simp add: subset_iff)
qed

lemma run_sources_started:
  "\<forall>n \<in> set (sourcesRef s). n < length (started s) \<Longrightarrow>
   \<exists>s'. run evs s = Inr s' \<and> (\<forall>n \<in> set (sourcesRef s'). n < length (started s'))"
proof (induction evs arbitrary: s)
  case Nil
  then show ?case by simp
next
  case (Cons ev evs)
  from dispatch_sources_started [OF Cons.prems, of ev] obtain s1 where
    "dispatch ev s = Inr s1" "\<forall>n \<in> set (sourcesRef s1). n < length (started s1)"
    by blast
  with Cons.IH [of s1] show ?case by simp
qed

lemma run_never_throws:
  "\<exists>s'. run evs (mount st) = Inr s' \<and> (\<forall>n \<in> set (sourcesRef s'). n < length (started s'))"
  by (rule run_sources_started) (simp add: mount_def)

section \<open>Stop\<close>

text \<open>
  C4, as amended. From any state, \<open>stopAudio\<close> returns without throwing, closes both audio
  contexts and clears their references, calls \<open>stop\<close> on every started source of the
  active set and empties the set, clears the active-call details and the initializing
  flag, and sets the agent state to Idle; a second call changes nothing more. It leaves
  the playback cursor as it is; the next \<open>connectToLiveAPI\<close> sets the cursor to the clock
  of its new output context.
\<close>

theorem stop_tears_down:
  "audioContextRef (stopAudio s) = None \<and> inputContextRef (stopAudio s) = None
   \<and> set_option (audioContextRef s) \<union> set_option (inputContextRef s)
        \<subseteq> set (closeCalls (stopAudio s))
   \<and> set (filter (\<lambda>n. n < length (started s)) (sourcesRef s)) \<subseteq> set (stopCalls (stopAudio s))
   \<and> sourcesRef (stopAudio s) = []
   \<and> nextStartTimeRef (stopAudio s) = nextStartTimeRef s
   \<and> activeCallDetails (stopAudio s) = None
   \<and> agentState_set (stopAudio s) = IDLE \<and> agentState (render (stopAudio s)) = IDLE
   \<and> isInitializingRef (stopAudio s) = False
   \<and> stopAudio (stopAudio s) = stopAudio s
   \<and> nextStartTimeRef (snd (connectToLiveAPI True now (render (stopAudio s)))) = now"
proof -
  have again: "stopAudio (stopAudio s) = stopAudio s"
    by (cases "audioContextRef s"; cases "inputContextRef s")
       (simp_all add: stopAudio_def Let_def setAgentState_def stop_each_caught_eq)
  have fields: "audioContextRef (stopAudio s) = None" "inputContextRef (stopAudio s) = None"
    "sourcesRef (stopAudio s) = []" "nextStartTimeRef (stopAudio s) = nextStartTimeRef s"
    "activeCallDetails (stopAudio s) = None" "agentState_set (stopAudio s) = IDLE"
    "isInitializingRef (stopAudio s) = False"
    by (simp_all add: stopAudio_def Let_def setAgentState_def stop_each_caught_eq
        split: option.splits)
  have closed: "set_option (audioContextRef s) \<union> set_option (inputContextRef s)
        \<subseteq> set (closeCalls (stopAudio s))"
    by (cases "audioContextRef s"; cases "inputContextRef s")
       (simp_all add: stopAudio_def Let_def setAgentState_def stop_each_caught_eq)
  have stopped: "set (filter (\<lambda>n. n < length (started s)) (sourcesRef s))
        \<subseteq> set (stopCalls (stopAudio s))"
    by (cases "audioContextRef s"; cases "inputContextRef s")
       (simp_all add: stopAudio_def Let_def setAgentState_def stop_each_caught_eq)
  have shown: "agentState (render (stopAudio s)) = IDLE"
    by (simp add: render_def fields)
  have next_connect: "nextStartTimeRef (snd (connectToLiveAPI True now (render (stopAudio s)))) = now"
    by (simp add: connectToLiveAPI_def render_def fields setAgentState_def Let_def)
  from again fields closed stopped shown next_connect show ?thesis by simp
qed

text \<open>
  After one audio payload the cursor of the connected agent is at 3, and it still is after
  the End button.
\<close>

theorem stop_keeps_cursor:
  "run [Message example_env (audio_message ''UklGRg==''), Rendered] example_connected
     = Inr example_playing
   \<and> nextStartTimeRef example_playing = 3
   \<and> nextStartTimeRef (stopAudio example_playing) = 3"
  by (simp add: example_playing_def example_connected_eq mount_def onmessage_def
      handleTranscription_def handleTurnComplete_def handleToolCall_def handleAudio_def
      handleInterruption_def audio_message_def empty_message_def example_env_def render_def
      setAgentState_def Set_add_def Let_def stopAudio_def stop_source_def)

section \<open>Agent state on audio and turn completion\<close>

lemma handleTranscription_state:
  "agentState_set (handleTranscription e m s) = agentState_set s"
  "agentStateRef (handleTranscription e m s) = agentStateRef s"
  "currentOutputTransRef s \<noteq> [] \<Longrightarrow> currentOutputTransRef (handleTranscription e m s) \<noteq> []"
  "outputTranscription m \<in> {None, Some []} \<Longrightarrow>
     currentOutputTransRef (handleTranscription e m s) = currentOutputTransRef s"
  by (auto simp: handleTranscription_def render_entry_def Let_def split: option.splits)

lemma handleTurnComplete_state:
  "agentStateRef (handleTurnComplete e m s) = agentStateRef s"
  "agentState_set (handleTurnComplete e m s) =
     (if turnComplete m \<and> currentOutputTransRef s \<noteq> [] then LISTENING else agentState_set s)"
  by (simp_all add: handleTurnComplete_def render_entry_def Let_def setAgentState_def)

lemma handleAudio_state:
  "agentState_set (handleAudio (\<lambda>s. s) e m s) =
     (if inlineData m \<notin> {None, Some []} \<and> agentStateRef s \<noteq> IN_CALL then SPEAKING
      else agentState_set s)"
  by (auto simp: handleAudio_def Let_def setAgentState_def split: option.splits)

text \<open>
  C5, as amended. For a message without tool calls and without the interruption flag, the
  state shown after the next render is: Speaking, when the message has an audio chunk and
  the state reference is not InCall; InCall, when the message has an audio chunk and no
  turn completion and the state is InCall with no change pending; Listening, when the
  message completes a turn without an audio chunk, the agent's accumulator is not empty
  and the state is not InCall; and the state as it was set before, when the message
  completes a turn without an audio chunk and the agent's accumulator is and stays empty.
\<close>

theorem agent_state_on_audio_and_turn_completion:
  assumes "toolCall m = None" and "\<not> interrupted m"
  shows "\<exists>s'. onmessage e m s = Inr s'
     \<and> (inlineData m \<notin> {None, Some []} \<and> agentStateRef s \<noteq> IN_CALL
          \<longrightarrow> agentState (render s') = SPEAKING)
     \<and> (inlineData m \<notin> {None, Some []} \<and> \<not> turnComplete m
          \<and> agentStateRef s = IN_CALL \<and> agentState_set s = IN_CALL
          \<longrightarrow> agentState (render s') = IN_CALL)
     \<and> (inlineData m \<in> {None, Some []} \<and> turnComplete m \<and> currentOutputTransRef s \<noteq> []
          \<and> agentState_set s \<noteq> IN_CALL
          \<longrightarrow> agentState (render s') = LISTENING)
     \<and> (inlineData m \<in> {None, Some []} \<and> turnComplete m \<and> currentOutputTransRef s = []
          \<and> outputTranscription m \<in> {None, Some []}
          \<longrightarrow> agentState (render s') = agentState_set s)"
proof -
  let ?a = "handleTranscription e m s"
  let ?b = "handleTurnComplete e m ?a"
  let ?s' = "handleAudio (\<lambda>s. s) e m ?b"
  have run: "onmessage e m s = Inr ?s'"
    using assms by (simp add: onmessage_def handleToolCall_def handleInterruption_def)
  have shown: "agentState (render ?s') = agentState_set ?s'"
    by (simp add: render_def)
  have ref: "agentStateRef ?b = agentStateRef s"
    by (simp add: handleTurnComplete_state handleTranscription_state)
  have set: "agentState_set ?b =
      (if turnComplete m \<and> currentOutputTransRef ?a \<noteq> [] then LISTENING else agentState_set s)"
    by (simp add: handleTurnComplete_state handleTranscription_state)
  have 1: "inlineData m \<notin> {None, Some []} \<and> agentStateRef s \<noteq> IN_CALL
      \<longrightarrow> agentState (render ?s') = SPEAKING"
    unfolding shown handleAudio_state ref by simp
  have 2: "inlineData m \<notin> {None, Some []} \<and> \<not> turnComplete m
          \<and> agentStateRef s = IN_CALL \<and> agentState_set s = IN_CALL
          \<longrightarrow> agentState (render ?s') = IN_CALL"
    unfolding shown handleAudio_state ref set by simp
  have 3: "inlineData m \<in> {None, Some []} \<and> turnComplete m \<and> currentOutputTransRef s \<noteq> []
          \<and> agentState_set s \<noteq> IN_CALL
          \<longrightarrow> agentState (render ?s') = LISTENING"
    unfolding shown handleAudio_state ref set
    using handleTranscription_state(3) [of s e m] by auto
  have 4: "inlineData m \<in> {None, Some []} \<and> turnComplete m \<and> currentOutputTransRef s = []
          \<and> outputTranscription m \<in> {None, Some []}
          \<longrightarrow> agentState (render ?s') = agentState_set s"
    unfolding shown handleAudio_state ref set
    using handleTranscription_state(4) [of m e s] by auto
  from run 1 2 3 4 show ?thesis by blast
qed

lemma example_in_call_state:
  "agentState example_in_call = IN_CALL" "agentState_set example_in_call = IN_CALL"
  "agentStateRef example_in_call = IN_CALL"
  by (simp_all add: example_in_call_def example_connected_eq mount_def handleToolCall_def
      executeFunctionCall_def example_call_def Let_def render_def setAgentState_def
      sendToolResponse_def)

text \<open>An audio chunk during a call.\<close>

theorem agent_state_on_audio_and_turn_completion_witness:
  "\<exists>s'. onmessage example_env (audio_message ''UklGRg=='') example_in_call = Inr s'
      \<and> agentState (render s') = IN_CALL"
proof -
  have h: "toolCall (audio_message ''UklGRg=='') = None" "\<not> interrupted (audio_message ''UklGRg=='')"
    by (simp_all add: audio_message_def empty_message_def)
  from agent_state_on_audio_and_turn_completion [OF h, of example_env example_in_call]
  show ?thesis
    by (auto simp: audio_message_def empty_message_def example_in_call_state)
qed

text \<open>
  A call is started and shown as InCall; the agent's next turn completion shows Listening.
  And an audio chunk without transcription shows Speaking, which a turn completion then
  leaves in place.
\<close>

theorem in_call_lost_on_turn_completion:
  "agentState_after (run [Message example_env (empty_message\<lparr>toolCall := Some [example_call]\<rparr>),
        Rendered] example_connected) = Some IN_CALL
   \<and> agentState_after (run [Message example_env (empty_message\<lparr>toolCall := Some [example_call]\<rparr>),
        Rendered, Message example_env (delta_message agent ''Dialing now''),
        Message example_env turn_complete_message, Rendered] example_connected) = Some LISTENING
   \<and> agentState_after (run [Message example_env (audio_message ''UklGRg==''), Rendered]
        example_connected) = Some SPEAKING
   \<and> agentState_after (run [Message example_env (audio_message ''UklGRg==''), Rendered,
        Message example_env turn_complete_message, Rendered] example_connected) = Some SPEAKING"
  by (simp add: agentState_after_def example_connected_eq mount_def onmessage_def
      handleTranscription_def handleTurnComplete_def handleToolCall_def handleAudio_def
      handleInterruption_def executeFunctionCall_def sendToolResponse_def example_call_def
      audio_message_def delta_message_def turn_complete_message_def empty_message_def
      example_env_def render_def render_entry_def updateTranscript_def setAgentState_def
      Set_add_def Let_def)

section \<open>A tool response that is late\<close>

text \<open>
  C7. The End button is pressed while \<open>find_business_number\<close> waits for its simulated
  search: \<open>stopAudio\<close> leaves the session reference set, and the batch is sent to that
  session when the delay is over. When a new session has been started in the meantime, the
  batch of the old session's request is sent to the new one.
\<close>

theorem late_tool_response_sent:
  "sessionRef example_connected = Some 0
   \<and> sessionRef (stopAudio example_connected) = Some 0
   \<and> sent (handleToolCall (\<lambda>fc. stopAudio) example_env
        (empty_message\<lparr>toolCall := Some [example_find]\<rparr>) example_connected)
     = [(0, [\<lparr>id_fr = ''call-4'', name_fr = ''find_business_number'',
              response = [(''phoneNumber'', ''555-0199''), (''businessName'', ''Luigi, Rome''),
                          (''address'', ''123 Mock Lane'')]\<rparr>])]
   \<and> sent (handleToolCall (\<lambda>fc. example_reconnect) example_env
        (empty_message\<lparr>toolCall := Some [example_find]\<rparr>) example_connected)
     = [(1, [\<lparr>id_fr = ''call-4'', name_fr = ''find_business_number'',
              response = [(''phoneNumber'', ''555-0199''), (''businessName'', ''Luigi, Rome''),
                          (''address'', ''123 Mock Lane'')]\<rparr>])]"
  by (simp add: example_connected_eq example_reconnect_def mount_def handleToolCall_def
      executeFunctionCall_def sendToolResponse_def example_find_def empty_message_def
      stopAudio_def setAgentState_def render_def connectToLiveAPI_def connect_resume_def
      session_resolved_def Let_def)

section \<open>Connecting\<close>

lemma rapid_presses:
  assumes "isInitializingRef s1"
    and "\<forall>ev \<in> set evs. ev = Rendered \<or> (\<exists>api_key now. ev = Start_pressed api_key now)"
  shows "run evs s1 = Inr (if Rendered \<in> set evs then render s1 else s1)"
  using assms
proof (induction evs arbitrary: s1)
  case Nil
  show ?case by simp
next
  case (Cons ev evs)
  have twice: "render (render s1) = render s1"
    by (simp add: render_def)
  from Cons.prems(2) consider "ev = Rendered" | api_key now where "ev = Start_pressed api_key now"
    by auto
  then show ?case
  proof cases
    case 1
    have "isInitializingRef (render s1)"
      using Cons.prems(1) by (simp add: render_def)
    from Cons.IH [OF this] Cons.prems(2) show ?thesis
      by (simp add: 1 twice)
  next
    case 2
    have "connectToLiveAPI api_key now s1 = (None, s1)"
      using Cons.prems(1) by (simp add: connectToLiveAPI_def)
    with Cons.IH [OF Cons.prems(1)] Cons.prems(2) show ?thesis
      by (simp add: 2)
  qed
qed

text \<open>
  C9. \<open>connectToLiveAPI\<close> changes nothing and suspends nothing when an initialization is
  in progress or the rendered state is not Idle. Called from Idle with an API key it
  suspends at the microphone request without having opened a session; any further presses
  of the Start button, with or without renders in between, leave the state as the first
  call (and the renders) made it, and so does a call after the first one has resumed: all
  the calls together open exactly the one session of the first call's resumption.
\<close>

theorem connect_guard:
  "(isInitializingRef s \<or> agentState s \<noteq> IDLE \<longrightarrow> connectToLiveAPI api_key now s = (None, s))
   \<and> (\<not> isInitializingRef s \<and> agentState s = IDLE
        \<and> (\<forall>ev \<in> set evs. ev = Rendered \<or> (\<exists>api_key now. ev = Start_pressed api_key now)) \<longrightarrow>
        (\<exists>c s1 s'. connectToLiveAPI True now s = (Some c, s1)
           \<and> agentState_set s1 = CONNECTING \<and> sessionsOpened s1 = sessionsOpened s
           \<and> run evs s1 = Inr s' \<and> s' = (if Rendered \<in> set evs then render s1 else s1)
           \<and> connectToLiveAPI api_key' now' s' = (None, s')
           \<and> (\<exists>session s2. connect_resume None c s' = (Some session, s2)
                 \<and> sessionsOpened s2 = sessionsOpened s + 1
                 \<and> connectToLiveAPI api_key' now' s2 = (None, s2))))"
proof (intro conjI impI)
  assume "isInitializingRef s \<or> agentState s \<noteq> IDLE"
  then show "connectToLiveAPI api_key now s = (None, s)"
    by (auto simp: connectToLiveAPI_def)
next
  assume a: "\<not> isInitializingRef s \<and> agentState s = IDLE
        \<and> (\<forall>ev \<in> set evs. ev = Rendered \<or> (\<exists>api_key now. ev = Start_pressed api_key now))"
  obtain c s1 where first: "connectToLiveAPI True now s = (Some c, s1)"
    and s1: "isInitializingRef s1" "agentState_set s1 = CONNECTING"
      "sessionsOpened s1 = sessionsOpened s"
    using a by (simp add: connectToLiveAPI_def setAgentState_def Let_def)
  define s' where "s' = (if Rendered \<in> set evs then render s1 else s1)"
  have run: "run evs s1 = Inr s'"
    unfolding s'_def using s1(1) a by (intro rapid_presses) simp_all
  have s': "isInitializingRef s'" "sessionsOpened s' = sessionsOpened s"
    using s1 by (simp_all add: s'_def render_def)
  have second: "connectToLiveAPI api_key' now' s' = (None, s')"
    using s'(1) by (simp add: connectToLiveAPI_def)
  have resumed: "\<exists>session s2. connect_resume None c s' = (Some session, s2)
                 \<and> sessionsOpened s2 = sessionsOpened s + 1
                 \<and> connectToLiveAPI api_key' now' s2 = (None, s2)"
    using s' by (simp add: connect_resume_def connectToLiveAPI_def)
  from first s1(2,3) run s'_def second resumed
  show "\<exists>c s1 s'. connectToLiveAPI True now s = (Some c, s1)
           \<and> agentState_set s1 = CONNECTING \<and> sessionsOpened s1 = sessionsOpened s
           \<and> run evs s1 = Inr s' \<and> s' = (if Rendered \<in> set evs then render s1 else s1)
           \<and> connectToLiveAPI api_key' now' s' = (None, s')
           \<and> (\<exists>session s2. connect_resume None c s' = (Some session, s2)
                 \<and> sessionsOpened s2 = sessionsOpened s + 1
                 \<and> connectToLiveAPI api_key' now' s2 = (None, s2))"
    by blast
qed

theorem connect_guard_witness:
  "\<exists>c s1 s' session s2. connectToLiveAPI True 0 (mount empty_storage) = (Some c, s1)
      \<and> run [Start_pressed True 0, Rendered, Start_pressed True 0] s1 = Inr s'
      \<and> connect_resume None c s' = (Some session, s2)
      \<and> sessionsOpened s2 = 1"
proof -
  have h: "\<not> isInitializingRef (mount empty_storage) \<and> agentState (mount empty_storage) = IDLE
      \<and> (\<forall>ev \<in> set [Start_pressed True 0, Rendered, Start_pressed True 0].
            ev = Rendered \<or> (\<exists>api_key now. ev = Start_pressed api_key now))"
    by (auto simp: mount_def)
  from connect_guard [of "mount empty_storage" True 0 "[Start_pressed True 0, Rendered, Start_pressed True 0]" True 0] h
  obtain c s1 s' session s2 where "connectToLiveAPI True 0 (mount empty_storage) = (Some c, s1)"
    "run [Start_pressed True 0, Rendered, Start_pressed True 0] s1 = Inr s'"
    "connect_resume None c s' = (Some session, s2)"
    "sessionsOpened s2 = sessionsOpened (mount empty_storage) + 1"
    by blast
  then show ?thesis by (auto simp: mount_def)
qed

end
